theory Spec2Isabelle
  imports Main "HOL-Library.AList" "HOL-Library.Multiset"
begin

section \<open>The blog application of \<^verbatim>\<open>main.py\<close>\<close>

text \<open>
  The application is a set of Flask view functions over three SQLAlchemy tables and the
  Flask-Login session. The model keeps the three tables as lists of rows in insertion
  order, the session as the user id that Flask-Login stores in the cookie, and the flashed
  messages as a list. Every view function becomes a function from the state of the
  application to a response and the next state; every exception and every \<^verbatim>\<open>abort\<close>
  is a response of its own. The templates and \<^verbatim>\<open>forms.py\<close> are not part of
  \<^verbatim>\<open>main.py\<close>: a rendered page is the name of its template with the values handed
  to it, and a form is its validated data.
\<close>

subsection \<open>Tables\<close>

text \<open>
  The rows of \<^verbatim>\<open>users\<close>, \<^verbatim>\<open>blog_posts\<close> and \<^verbatim>\<open>comments\<close> (lines 34-75).
  The relationships \<^verbatim>\<open>author\<close>, \<^verbatim>\<open>comment_author\<close> and \<^verbatim>\<open>parent_post\<close>
  are the foreign keys \<^verbatim>\<open>author_id\<close> and \<^verbatim>\<open>post_id\<close>; the collections
  \<^verbatim>\<open>posts\<close> and \<^verbatim>\<open>comments\<close> are the rows that carry the key.
\<close>

record User =
  usr_id :: nat
  usr_email :: string
  usr_password :: string
  usr_name :: string

record BlogPost =
  bp_id :: nat
  bp_author_id :: nat
  bp_title :: string
  bp_subtitle :: string
  bp_date :: string
  bp_body :: string
  bp_img_url :: string

record Comment =
  cm_id :: nat
  cm_text :: string
  cm_author_id :: nat
  cm_post_id :: nat

record state =
  users :: "User list"
  blog_posts :: "BlogPost list"
  comments :: "Comment list"
  session_user_id :: "nat option"
  flashes :: "string list"

definition init_state :: state where
  "init_state = \<lparr>users = [], blog_posts = [], comments = [],
                  session_user_id = None, flashes = []\<rparr>"

subsection \<open>Responses\<close>

datatype endpoint = Login_ep | Get_all_posts_ep | Show_post_ep nat

text \<open>
  The exceptions that leave a view function and become a 500 response:
  \<^verbatim>\<open>TypeError\<close> is Flask's, for a view function that returned \<^verbatim>\<open>None\<close>;
  \<^verbatim>\<open>AttributeError\<close> is raised when an attribute of the anonymous user is read that
  it does not have (\<^verbatim>\<open>id\<close>, or the instance state of a mapped object);
  \<^verbatim>\<open>IntegrityError\<close> is the store's, for a violated constraint at commit;
  \<^verbatim>\<open>DataError\<close> is the store's, for a value that does not fit its column.
\<close>

datatype exn = TypeError | AttributeError | IntegrityError | DataError

record user_entry =
  ue_id :: nat
  ue_name :: string
  ue_email :: string

datatype page =
    Index_html "BlogPost list"
  | Post_html BlogPost "Comment list"
  | Make_post_html bool
  | Register_html
  | Login_html
  | About_html
  | Contact_html

text \<open>
  \<open>Render p l\<close> is \<^verbatim>\<open>render_template\<close> with \<^verbatim>\<open>logged_in=l\<close>; \<open>Abort n\<close> is
  \<^verbatim>\<open>abort(n)\<close>; \<open>Jsonify d\<close> carries the dictionary given to \<^verbatim>\<open>jsonify\<close>,
  a Python dictionary being an association list in insertion order with one pair for
  each key.
\<close>

datatype response =
    Render page bool
  | Redirect endpoint
  | Jsonify "(string \<times> user_entry) list"
  | Abort nat
  | Internal_Server_Error exn

text \<open>
  A form of \<^verbatim>\<open>forms.py\<close>: \<^verbatim>\<open>validate_on_submit()\<close> is either false (a GET, or
  data that the form rejects) or true with the data of the fields.
\<close>

datatype 'a form = Not_validated | Validated 'a

record RegisterForm =
  rf_email :: string
  rf_password :: string
  rf_name :: string

record LoginForm =
  lf_email :: string
  lf_password :: string

record CreatePostForm =
  pf_title :: string
  pf_subtitle :: string
  pf_img_url :: string
  pf_body :: string

record CommentForm =
  cf_body :: string

subsection \<open>The current user\<close>

text \<open>
  Flask-Login's \<^verbatim>\<open>current_user\<close>: the anonymous user when the session holds no
  user id, the row that \<^verbatim>\<open>load_user\<close> finds otherwise. \<^verbatim>\<open>load_user\<close> is
  \<^verbatim>\<open>db.get_or_404\<close> (line 98), so a session whose user id has no row ends the
  request with 404.
\<close>

datatype identity = Anonymous | Authenticated User

fun is_authenticated :: "identity \<Rightarrow> bool" where
  "is_authenticated Anonymous = False"
| "is_authenticated (Authenticated u) = True"

definition load_user :: "state \<Rightarrow> nat \<Rightarrow> response + User" where
  "load_user s user_id =
     (case find (\<lambda>u. usr_id u = user_id) (users s) of
        None \<Rightarrow> Inl (Abort 404)
      | Some u \<Rightarrow> Inr u)"

definition current_user :: "state \<Rightarrow> response + identity" where
  "current_user s =
     (case session_user_id s of
        None \<Rightarrow> Inr Anonymous
      | Some user_id \<Rightarrow>
          (case load_user s user_id of
             Inl r \<Rightarrow> Inl r
           | Inr u \<Rightarrow> Inr (Authenticated u)))"

definition login_user :: "User \<Rightarrow> state \<Rightarrow> state" where
  "login_user u s = s\<lparr>session_user_id := Some (usr_id u)\<rparr>"

definition logout_user :: "state \<Rightarrow> state" where
  "logout_user s = s\<lparr>session_user_id := None\<rparr>"

definition flash :: "string \<Rightarrow> state \<Rightarrow> state" where
  "flash msg s = s\<lparr>flashes := flashes s @ [msg]\<rparr>"

subsection \<open>Decorators\<close>

text \<open>
  \<^verbatim>\<open>get_current_user\<close> (lines 102-116) reads \<^verbatim>\<open>current_user\<close>, prints, and calls
  the view. The printing is left out; the read is kept, since it is where a stale session
  ends in 404. The identity it resolved is handed to the view, which reads the same
  \<^verbatim>\<open>current_user\<close> for the rest of the request.
\<close>

definition get_current_user ::
  "(identity \<Rightarrow> state \<Rightarrow> response \<times> state) \<Rightarrow> state \<Rightarrow> response \<times> state" where
  "get_current_user func s =
     (case current_user s of
        Inl r \<Rightarrow> (r, s)
      | Inr cu \<Rightarrow> func cu s)"

text \<open>
  Flask-Login's \<^verbatim>\<open>login_required\<close>: no \<^verbatim>\<open>login_view\<close> is configured, so an
  unauthenticated caller gets \<^verbatim>\<open>abort(401)\<close>.
\<close>

definition login_required ::
  "(identity \<Rightarrow> state \<Rightarrow> response \<times> state) \<Rightarrow> state \<Rightarrow> response \<times> state" where
  "login_required func s =
     (case current_user s of
        Inl r \<Rightarrow> (r, s)
      | Inr cu \<Rightarrow> if \<not> is_authenticated cu then (Abort 401, s) else func cu s)"

text \<open>
  \<^verbatim>\<open>admin_only\<close> (lines 137-144): \<^verbatim>\<open>login_required\<close> around the wrapper whose
  test is \<^verbatim>\<open>not current_user.is_authenticated and current_user.id != 1\<close>. The
  anonymous user has no \<^verbatim>\<open>id\<close>.
\<close>

definition admin_only_wrapper ::
  "(state \<Rightarrow> response \<times> state) \<Rightarrow> identity \<Rightarrow> state \<Rightarrow> response \<times> state" where
  "admin_only_wrapper f cu s =
     (case cu of
        Anonymous \<Rightarrow> (Internal_Server_Error AttributeError, s)
      | Authenticated u \<Rightarrow>
          if \<not> is_authenticated cu \<and> usr_id u \<noteq> 1 then (Abort 403, s) else f s)"

definition admin_only :: "(state \<Rightarrow> response \<times> state) \<Rightarrow> state \<Rightarrow> response \<times> state" where
  "admin_only f = login_required (admin_only_wrapper f)"

subsection \<open>The store\<close>

text \<open>
  The store is the one of \<^verbatim>\<open>SQLALCHEMY_DATABASE_URI\<close> (line 28), PostgreSQL. A
  table is the list of its rows in the order in which a select without
  \<^verbatim>\<open>ORDER BY\<close> returns them: a new row, and the new version of an updated row, come
  last.

  A column \<^verbatim>\<open>String(n)\<close> takes at most \<open>n\<close> characters. A longer value is refused
  with \<^verbatim>\<open>DataError\<close>, unless the characters beyond the \<open>n\<close>-th are all spaces:
  then the first \<open>n\<close> characters are stored. A string of the model is the list of the
  characters of the value.
\<close>

definition varchar :: "nat \<Rightarrow> string \<Rightarrow> exn + string" where
  "varchar n x =
     (if length x \<le> n then Inr x
      else if list_all (\<lambda>c. c = CHR '' '') (drop n x) then Inr (take n x)
      else Inl DataError)"

text \<open>
  The key of a new user or post is chosen by the store (the next value of the sequence of
  the table), not by the application: it is the parameter \<open>new_id\<close> of the commit. The
  store never chooses a key that the table has; the model answers that case as the store
  answers a second row with a primary key, with \<^verbatim>\<open>IntegrityError\<close>. Comments are
  never deleted and the insert of a comment is never refused, so the key of a new comment
  is one more than the largest key of the table, 1 for the empty table.
\<close>

definition next_id :: "nat list \<Rightarrow> nat" where
  "next_id ids = Suc (fold max ids 0)"

text \<open>
  \<^verbatim>\<open>db.session.add\<close> and \<^verbatim>\<open>db.session.commit\<close> for a new user
  (lines 173-180): \<^verbatim>\<open>email\<close>, \<^verbatim>\<open>password\<close> and \<^verbatim>\<open>name\<close> are
  \<^verbatim>\<open>String(100)\<close> and \<^verbatim>\<open>email\<close> is unique (lines 54-56). A commit that raises
  writes nothing.
\<close>

definition commit_User ::
  "nat \<Rightarrow> string \<Rightarrow> string \<Rightarrow> string \<Rightarrow> state \<Rightarrow> exn + User \<times> state" where
  "commit_User new_id email password name s =
     (case varchar 100 email of
        Inl e \<Rightarrow> Inl e
      | Inr email' \<Rightarrow>
     (case varchar 100 password of
        Inl e \<Rightarrow> Inl e
      | Inr password' \<Rightarrow>
     (case varchar 100 name of
        Inl e \<Rightarrow> Inl e
      | Inr name' \<Rightarrow>
          if email' \<in> set (map usr_email (users s)) then Inl IntegrityError
          else if new_id \<in> set (map usr_id (users s)) then Inl IntegrityError
          else
            let new_user = \<lparr>usr_id = new_id, usr_email = email',
                             usr_password = password', usr_name = name'\<rparr>
            in Inr (new_user, s\<lparr>users := users s @ [new_user]\<rparr>))))"

text \<open>
  The same for a new post (lines 273-282): \<^verbatim>\<open>title\<close>, \<^verbatim>\<open>subtitle\<close>,
  \<^verbatim>\<open>date\<close> and \<^verbatim>\<open>img_url\<close> are \<^verbatim>\<open>String(250)\<close>, \<^verbatim>\<open>body\<close> is
  \<^verbatim>\<open>Text\<close>, and \<^verbatim>\<open>title\<close> is unique (lines 41-45).
\<close>

definition commit_BlogPost ::
  "nat \<Rightarrow> string \<Rightarrow> string \<Rightarrow> string \<Rightarrow> string \<Rightarrow> User \<Rightarrow> string \<Rightarrow> state
    \<Rightarrow> exn + state" where
  "commit_BlogPost new_id title subtitle body img_url author date s =
     (case varchar 250 title of
        Inl e \<Rightarrow> Inl e
      | Inr title' \<Rightarrow>
     (case varchar 250 subtitle of
        Inl e \<Rightarrow> Inl e
      | Inr subtitle' \<Rightarrow>
     (case varchar 250 date of
        Inl e \<Rightarrow> Inl e
      | Inr date' \<Rightarrow>
     (case varchar 250 img_url of
        Inl e \<Rightarrow> Inl e
      | Inr img_url' \<Rightarrow>
          if title' \<in> set (map bp_title (blog_posts s)) then Inl IntegrityError
          else if new_id \<in> set (map bp_id (blog_posts s)) then Inl IntegrityError
          else
            let new_post = \<lparr>bp_id = new_id, bp_author_id = usr_id author, bp_title = title',
                             bp_subtitle = subtitle', bp_date = date', bp_body = body,
                             bp_img_url = img_url'\<rparr>
            in Inr (s\<lparr>blog_posts := blog_posts s @ [new_post]\<rparr>)))))"

text \<open>
  The commit of an edited post (lines 301-306). \<open>old\<close> is the row that
  \<^verbatim>\<open>db.get_or_404\<close> loaded and \<open>new\<close> is that object after the assignments. Where
  no attribute has changed, the session has nothing to write. Otherwise the update
  sends the changed attributes, which the store checks as in an insert, and the new
  version of the row takes the place after the other rows.
\<close>

definition assign :: "nat \<Rightarrow> string \<Rightarrow> string \<Rightarrow> exn + string" where
  "assign n old new = (if new = old then Inr old else varchar n new)"

fun remove_post :: "nat \<Rightarrow> BlogPost list \<Rightarrow> BlogPost list" where
  "remove_post post_id [] = []"
| "remove_post post_id (p # ps) =
     (if bp_id p = post_id then ps else p # remove_post post_id ps)"

definition commit_edit :: "BlogPost \<Rightarrow> BlogPost \<Rightarrow> state \<Rightarrow> exn + state" where
  "commit_edit old new s =
     (if new = old then Inr s
      else
     (case assign 250 (bp_title old) (bp_title new) of
        Inl e \<Rightarrow> Inl e
      | Inr title' \<Rightarrow>
     (case assign 250 (bp_subtitle old) (bp_subtitle new) of
        Inl e \<Rightarrow> Inl e
      | Inr subtitle' \<Rightarrow>
     (case assign 250 (bp_img_url old) (bp_img_url new) of
        Inl e \<Rightarrow> Inl e
      | Inr img_url' \<Rightarrow>
          if title' \<in> set (map bp_title
                            (filter (\<lambda>p. bp_id p \<noteq> bp_id old) (blog_posts s)))
          then Inl IntegrityError
          else Inr (s\<lparr>blog_posts := remove_post (bp_id old) (blog_posts s) @
                      [new\<lparr>bp_title := title', bp_subtitle := subtitle',
                           bp_img_url := img_url'\<rparr>]\<rparr>)))))"

text \<open>
  \<^verbatim>\<open>Comment(text=..., comment_author=..., parent_post=...)\<close> with add and commit
  (lines 254-261). Assigning the anonymous user to the relationship raises
  \<^verbatim>\<open>AttributeError\<close>: it is not a mapped object.
\<close>

definition commit_Comment :: "string \<Rightarrow> identity \<Rightarrow> BlogPost \<Rightarrow> state \<Rightarrow> exn + state" where
  "commit_Comment text comment_author parent_post s =
     (case comment_author of
        Anonymous \<Rightarrow> Inl AttributeError
      | Authenticated u \<Rightarrow>
          let new_comment = \<lparr>cm_id = next_id (map cm_id (comments s)), cm_text = text,
                              cm_author_id = usr_id u, cm_post_id = bp_id parent_post\<rparr>
          in Inr (s\<lparr>comments := comments s @ [new_comment]\<rparr>))"

text \<open>
  \<^verbatim>\<open>db.session.delete\<close> of a post and commit. The relationship \<^verbatim>\<open>comments\<close> has
  no delete cascade, so the unit of work first clears \<^verbatim>\<open>post_id\<close> of the post's
  comments, which the column (\<^verbatim>\<open>Mapped[str]\<close>, not optional) refuses.
\<close>

definition commit_delete :: "BlogPost \<Rightarrow> state \<Rightarrow> exn + state" where
  "commit_delete post s =
     (if bp_id post \<in> set (map cm_post_id (comments s)) then Inl IntegrityError
      else Inr (s\<lparr>blog_posts := filter (\<lambda>p. bp_id p \<noteq> bp_id post) (blog_posts s)\<rparr>))"

text \<open>\<^verbatim>\<open>db.get_or_404(BlogPost, post_id)\<close> and the collection \<^verbatim>\<open>post.comments\<close>.\<close>

definition get_post :: "state \<Rightarrow> nat \<Rightarrow> BlogPost option" where
  "get_post s post_id = find (\<lambda>p. bp_id p = post_id) (blog_posts s)"

definition post_comments :: "state \<Rightarrow> BlogPost \<Rightarrow> Comment list" where
  "post_comments s post = filter (\<lambda>c. cm_post_id c = bp_id post) (comments s)"

definition user_by_email :: "state \<Rightarrow> string \<Rightarrow> User option" where
  "user_by_email s email = find (\<lambda>u. usr_email u = email) (users s)"

subsection \<open>The date of a post\<close>

text \<open>
  \<^verbatim>\<open>date.today().strftime("%B %d, %Y")\<close> (line 279): the full name of the month,
  the day in two digits, and the year in decimal.
\<close>

record date =
  year :: nat
  month :: nat
  day :: nat

definition valid_date :: "date \<Rightarrow> bool" where
  "valid_date d \<longleftrightarrow> 1 \<le> year d \<and> year d \<le> 9999 \<and> 1 \<le> month d \<and> month d \<le> 12
                    \<and> 1 \<le> day d \<and> day d \<le> 31"

definition month_names :: "string list" where
  "month_names = [''January'', ''February'', ''March'', ''April'', ''May'', ''June'', ''July'',
                  ''August'', ''September'', ''October'', ''November'', ''December'']"

definition digit :: "nat \<Rightarrow> char" where
  "digit n = ''0123456789'' ! n"

fun decimal :: "nat \<Rightarrow> string" where
  "decimal n = (if n < 10 then [digit n] else decimal (n div 10) @ [digit (n mod 10)])"

declare decimal.simps [simp del]

definition strftime_B :: "date \<Rightarrow> string" where
  "strftime_B d = month_names ! (month d - 1)"

definition strftime_d :: "date \<Rightarrow> string" where
  "strftime_d d = (if day d < 10 then CHR ''0'' # decimal (day d) else decimal (day d))"

definition strftime_Y :: "date \<Rightarrow> string" where
  "strftime_Y d = decimal (year d)"

definition strftime :: "date \<Rightarrow> string" where
  "strftime d = strftime_B d @ '' '' @ strftime_d d @ '', '' @ strftime_Y d"

subsection \<open>View functions\<close>

text \<open>
  \<^verbatim>\<open>get_all_users\<close> (lines 120-133), with no decorator. The dictionary under the key
  \<^verbatim>\<open>'users'\<close> is filled in the order of the rows; an assignment to a name that is
  already a key replaces its value.
\<close>

definition get_all_users :: "state \<Rightarrow> response \<times> state" where
  "get_all_users s =
     (Jsonify (fold (\<lambda>user user_dict.
                  AList.update (usr_name user)
                    \<lparr>ue_id = usr_id user, ue_name = usr_name user, ue_email = usr_email user\<rparr>
                    user_dict)
               (users s) []), s)"

text \<open>
  \<^verbatim>\<open>register\<close> (lines 149-189). The hash of werkzeug's \<^verbatim>\<open>generate_password_hash\<close>
  with the salt it draws is the parameter \<open>generate_password_hash\<close>, and the key that
  the store gives the new row is \<open>new_id\<close>.
\<close>

definition register_view ::
  "(string \<Rightarrow> string) \<Rightarrow> nat \<Rightarrow> RegisterForm form \<Rightarrow> identity \<Rightarrow> state
    \<Rightarrow> response \<times> state" where
  "register_view generate_password_hash new_id form cu s =
     (case form of
        Not_validated \<Rightarrow> (Render Register_html (is_authenticated cu), s)
      | Validated f \<Rightarrow>
          (case user_by_email s (rf_email f) of
             Some user \<Rightarrow>
               (Redirect Login_ep,
                flash ''You already have an account with this email, please login.'' s)
           | None \<Rightarrow>
               (case commit_User new_id (rf_email f)
                       (generate_password_hash (rf_password f)) (rf_name f) s of
                  Inl e \<Rightarrow> (Internal_Server_Error e, s)
                | Inr (new_user, s') \<Rightarrow> (Redirect Get_all_posts_ep, login_user new_user s'))))"

definition register ::
  "(string \<Rightarrow> string) \<Rightarrow> nat \<Rightarrow> RegisterForm form \<Rightarrow> state \<Rightarrow> response \<times> state" where
  "register generate_password_hash new_id form =
     get_current_user (register_view generate_password_hash new_id form)"

text \<open>
  \<^verbatim>\<open>login\<close> (lines 193-227); werkzeug's \<^verbatim>\<open>check_password_hash\<close> is a parameter.
\<close>

definition login_view ::
  "(string \<Rightarrow> string \<Rightarrow> bool) \<Rightarrow> LoginForm form \<Rightarrow> identity \<Rightarrow> state \<Rightarrow> response \<times> state" where
  "login_view check_password_hash form cu s =
     (case form of
        Not_validated \<Rightarrow> (Render Login_html (is_authenticated cu), s)
      | Validated f \<Rightarrow>
          (case user_by_email s (lf_email f) of
             None \<Rightarrow>
               (Redirect Login_ep, flash ''That email does not exist, please try again.'' s)
           | Some user \<Rightarrow>
               if \<not> check_password_hash (usr_password user) (lf_password f) then
                 (Redirect Login_ep, flash ''Password incorrect, please try again.'' s)
               else if is_authenticated cu then
                 (Redirect Login_ep, flash ''You are already logged in!'' s)
               else (Redirect Get_all_posts_ep, login_user user s)))"

definition login ::
  "(string \<Rightarrow> string \<Rightarrow> bool) \<Rightarrow> LoginForm form \<Rightarrow> state \<Rightarrow> response \<times> state" where
  "login check_password_hash form = get_current_user (login_view check_password_hash form)"

text \<open>
  \<^verbatim>\<open>logout\<close> (lines 230-235). The \<^verbatim>\<open>return\<close> is inside the \<^verbatim>\<open>if\<close>: for a
  caller who is not authenticated the function returns \<^verbatim>\<open>None\<close>, which Flask
  refuses with a \<^verbatim>\<open>TypeError\<close>.
\<close>

definition logout_view :: "identity \<Rightarrow> state \<Rightarrow> response \<times> state" where
  "logout_view cu s =
     (if is_authenticated cu then (Redirect Get_all_posts_ep, logout_user s)
      else (Internal_Server_Error TypeError, s))"

definition logout :: "state \<Rightarrow> response \<times> state" where
  "logout = get_current_user logout_view"

definition get_all_posts_view :: "identity \<Rightarrow> state \<Rightarrow> response \<times> state" where
  "get_all_posts_view cu s = (Render (Index_html (blog_posts s)) (is_authenticated cu), s)"

definition get_all_posts :: "state \<Rightarrow> response \<times> state" where
  "get_all_posts = get_current_user get_all_posts_view"

text \<open>
  \<^verbatim>\<open>show_post\<close> (lines 246-263). The template reads \<^verbatim>\<open>post.comments\<close> after the
  commit.
\<close>

definition show_post_view ::
  "nat \<Rightarrow> CommentForm form \<Rightarrow> identity \<Rightarrow> state \<Rightarrow> response \<times> state" where
  "show_post_view post_id comment_form cu s =
     (case get_post s post_id of
        None \<Rightarrow> (Abort 404, s)
      | Some requested_post \<Rightarrow>
          (case comment_form of
             Not_validated \<Rightarrow>
               (Render (Post_html requested_post (post_comments s requested_post))
                  (is_authenticated cu), s)
           | Validated f \<Rightarrow>
               (case commit_Comment (cf_body f) cu requested_post s of
                  Inl e \<Rightarrow> (Internal_Server_Error e, s)
                | Inr s' \<Rightarrow>
                    (Render (Post_html requested_post (post_comments s' requested_post))
                       (is_authenticated cu), s'))))"

definition show_post :: "nat \<Rightarrow> CommentForm form \<Rightarrow> state \<Rightarrow> response \<times> state" where
  "show_post post_id comment_form = get_current_user (show_post_view post_id comment_form)"

text \<open>
  \<^verbatim>\<open>add_new_post\<close> (lines 267-284); \<^verbatim>\<open>date.today()\<close> is the parameter
  \<open>today\<close> and the key that the store gives the new row is \<open>new_id\<close>. Under
  \<^verbatim>\<open>admin_only\<close> the current user is a row of the user table.
\<close>

definition add_new_post_view ::
  "date \<Rightarrow> nat \<Rightarrow> CreatePostForm form \<Rightarrow> identity \<Rightarrow> state \<Rightarrow> response \<times> state" where
  "add_new_post_view today new_id form cu s =
     (case form of
        Not_validated \<Rightarrow> (Render (Make_post_html False) (is_authenticated cu), s)
      | Validated f \<Rightarrow>
          (case cu of
             Anonymous \<Rightarrow> (Internal_Server_Error AttributeError, s)
           | Authenticated u \<Rightarrow>
               (case commit_BlogPost new_id (pf_title f) (pf_subtitle f) (pf_body f)
                       (pf_img_url f) u (strftime today) s of
                  Inl e \<Rightarrow> (Internal_Server_Error e, s)
                | Inr s' \<Rightarrow> (Redirect Get_all_posts_ep, s'))))"

definition add_new_post ::
  "date \<Rightarrow> nat \<Rightarrow> CreatePostForm form \<Rightarrow> state \<Rightarrow> response \<times> state" where
  "add_new_post today new_id form =
     admin_only (get_current_user (add_new_post_view today new_id form))"

text \<open>\<^verbatim>\<open>edit_post\<close> (lines 288-308).\<close>

definition edit_post_view ::
  "nat \<Rightarrow> CreatePostForm form \<Rightarrow> identity \<Rightarrow> state \<Rightarrow> response \<times> state" where
  "edit_post_view post_id edit_form cu s =
     (case get_post s post_id of
        None \<Rightarrow> (Abort 404, s)
      | Some post \<Rightarrow>
          (case edit_form of
             Not_validated \<Rightarrow> (Render (Make_post_html True) (is_authenticated cu), s)
           | Validated f \<Rightarrow>
               (case cu of
                  Anonymous \<Rightarrow> (Internal_Server_Error AttributeError, s)
                | Authenticated u \<Rightarrow>
                    (case commit_edit post
                            (post\<lparr>bp_title := pf_title f, bp_subtitle := pf_subtitle f,
                                  bp_img_url := pf_img_url f, bp_author_id := usr_id u,
                                  bp_body := pf_body f\<rparr>) s of
                       Inl e \<Rightarrow> (Internal_Server_Error e, s)
                     | Inr s' \<Rightarrow> (Redirect (Show_post_ep (bp_id post)), s')))))"

definition edit_post :: "nat \<Rightarrow> CreatePostForm form \<Rightarrow> state \<Rightarrow> response \<times> state" where
  "edit_post post_id edit_form = admin_only (get_current_user (edit_post_view post_id edit_form))"

text \<open>\<^verbatim>\<open>delete_post\<close> (lines 312-319).\<close>

definition delete_post_view :: "nat \<Rightarrow> identity \<Rightarrow> state \<Rightarrow> response \<times> state" where
  "delete_post_view post_id cu s =
     (case get_post s post_id of
        None \<Rightarrow> (Abort 404, s)
      | Some post_to_delete \<Rightarrow>
          (case commit_delete post_to_delete s of
             Inl e \<Rightarrow> (Internal_Server_Error e, s)
           | Inr s' \<Rightarrow> (Redirect Get_all_posts_ep, s')))"

definition delete_post :: "nat \<Rightarrow> state \<Rightarrow> response \<times> state" where
  "delete_post post_id = admin_only (get_current_user (delete_post_view post_id))"

text \<open>\<^verbatim>\<open>about\<close> and \<^verbatim>\<open>contact\<close> (lines 322-331).\<close>

definition about_view :: "identity \<Rightarrow> state \<Rightarrow> response \<times> state" where
  "about_view cu s = (Render About_html (is_authenticated cu), s)"

definition about :: "state \<Rightarrow> response \<times> state" where
  "about = get_current_user about_view"

definition contact_view :: "identity \<Rightarrow> state \<Rightarrow> response \<times> state" where
  "contact_view cu s = (Render Contact_html (is_authenticated cu), s)"

definition contact :: "state \<Rightarrow> response \<times> state" where
  "contact = get_current_user contact_view"

subsection \<open>Requests\<close>

text \<open>
  The routes of the application. A request carries what the view function reads from
  outside the state: the form, and for \<open>Register\<close>, \<open>Login\<close> and \<open>Add_new_post\<close>
  the salted hash function, the check of a password, the date of the day and the key
  that the store gives a new row.
\<close>

datatype request =
    Get_all_users
  | Register "string \<Rightarrow> string" nat "RegisterForm form"
  | Login "string \<Rightarrow> string \<Rightarrow> bool" "LoginForm form"
  | Logout
  | Get_all_posts
  | Show_post nat "CommentForm form"
  | Add_new_post date nat "CreatePostForm form"
  | Edit_post nat "CreatePostForm form"
  | Delete_post nat
  | About
  | Contact

fun handle :: "request \<Rightarrow> state \<Rightarrow> response \<times> state" where
  "handle Get_all_users s = get_all_users s"
| "handle (Register generate_password_hash new_id form) s =
     register generate_password_hash new_id form s"
| "handle (Login check_password_hash form) s = login check_password_hash form s"
| "handle Logout s = logout s"
| "handle Get_all_posts s = get_all_posts s"
| "handle (Show_post post_id form) s = show_post post_id form s"
| "handle (Add_new_post today new_id form) s = add_new_post today new_id form s"
| "handle (Edit_post post_id form) s = edit_post post_id form s"
| "handle (Delete_post post_id) s = delete_post post_id s"
| "handle About s = about s"
| "handle Contact s = contact s"

text \<open>The states that the application reaches from the empty store.\<close>

inductive reachable :: "state \<Rightarrow> bool" where
  reachable_init: "reachable init_state"
| reachable_step: "reachable s \<Longrightarrow> reachable (snd (handle r s))"

text \<open>
  What the store guarantees in every state: emails and user ids are unique, and the
  user id of the session, if there is one, is that of a row.
\<close>

definition store_ok :: "state \<Rightarrow> bool" where
  "store_ok s \<longleftrightarrow>
     distinct (map usr_email (users s)) \<and> distinct (map usr_id (users s))
     \<and> set_option (session_user_id s) \<subseteq> set (map usr_id (users s))"

text \<open>The key and the date of every post, in the order of the table.\<close>

definition stamps :: "state \<Rightarrow> (nat \<times> string) list" where
  "stamps s = map (\<lambda>p. (bp_id p, bp_date p)) (blog_posts s)"

subsection \<open>Sample data\<close>

text \<open>
  Rows, forms and states on which the theorems below are evaluated. Alice is the first
  user of the store (id 1); \<open>robert\<close> has the name of \<open>bob\<close> and another email;
  the image reference of \<open>long_form\<close> has 251 characters.
\<close>

definition toy_hash :: "string \<Rightarrow> string" where
  "toy_hash pw = ''pbkdf2:sha256$'' @ pw"

definition toy_check :: "string \<Rightarrow> string \<Rightarrow> bool" where
  "toy_check pwhash pw \<longleftrightarrow> pwhash = toy_hash pw"

definition alice :: User where
  "alice = \<lparr>usr_id = 1, usr_email = ''a@x.com'', usr_password = toy_hash ''apple'',
            usr_name = ''Alice''\<rparr>"

definition bob :: User where
  "bob = \<lparr>usr_id = 2, usr_email = ''b@x.com'', usr_password = toy_hash ''banana'',
          usr_name = ''Bob''\<rparr>"

definition robert :: User where
  "robert = \<lparr>usr_id = 3, usr_email = ''r@x.com'', usr_password = toy_hash ''cherry'',
             usr_name = ''Bob''\<rparr>"

definition post1 :: BlogPost where
  "post1 = \<lparr>bp_id = 1, bp_author_id = 1, bp_title = ''P1'', bp_subtitle = ''first'',
            bp_date = ''March 03, 2024'', bp_body = ''hello'', bp_img_url = ''one.png''\<rparr>"

definition post2 :: BlogPost where
  "post2 = \<lparr>bp_id = 2, bp_author_id = 1, bp_title = ''P2'', bp_subtitle = ''second'',
            bp_date = ''June 05, 2024'', bp_body = ''again'', bp_img_url = ''two.png''\<rparr>"

definition alice_form :: RegisterForm where
  "alice_form = \<lparr>rf_email = ''a@x.com'', rf_password = ''apple'', rf_name = ''Alice''\<rparr>"

definition again_form :: RegisterForm where
  "again_form = \<lparr>rf_email = ''a@x.com'', rf_password = ''other'', rf_name = ''Alicia''\<rparr>"

definition wrong_login :: LoginForm where
  "wrong_login = \<lparr>lf_email = ''a@x.com'', lf_password = ''pear''\<rparr>"

definition new_form :: CreatePostForm where
  "new_form = \<lparr>pf_title = ''P3'', pf_subtitle = ''third'', pf_img_url = ''three.png'',
               pf_body = ''more''\<rparr>"

definition clash_form :: CreatePostForm where
  "clash_form = \<lparr>pf_title = ''P1'', pf_subtitle = ''third'', pf_img_url = ''three.png'',
                 pf_body = ''more''\<rparr>"

definition long_form :: CreatePostForm where
  "long_form = \<lparr>pf_title = ''P3'', pf_subtitle = ''third'',
                pf_img_url = replicate 251 CHR ''x'', pf_body = ''more''\<rparr>"

definition a_comment :: CommentForm where
  "a_comment = \<lparr>cf_body = ''nice''\<rparr>"

definition a_day :: date where
  "a_day = \<lparr>year = 2024, month = 3, day = 3\<rparr>"

definition alice_registered :: state where
  "alice_registered = \<lparr>users = [alice], blog_posts = [], comments = [],
                        session_user_id = Some 1, flashes = []\<rparr>"

definition blog :: "nat option \<Rightarrow> state" where
  "blog session = \<lparr>users = [alice, bob, robert], blog_posts = [post1, post2], comments = [],
                    session_user_id = session, flashes = []\<rparr>"

section \<open>Properties\<close>

lemmas sample_defs = toy_hash_def toy_check_def alice_def bob_def robert_def post1_def post2_def
  alice_form_def again_form_def wrong_login_def new_form_def clash_form_def long_form_def
  a_comment_def alice_registered_def blog_def init_state_def

lemmas gate_defs = admin_only_def login_required_def admin_only_wrapper_def
  get_current_user_def current_user_def load_user_def

subsection \<open>Keys and lookups\<close>

lemma fold_max_ge: "m \<le> fold max ids (m::nat)"
  by (induction ids arbitrary: m) (auto intro: order_trans [OF max.cobounded2])

lemma fold_max_mem: "x \<in> set ids \<Longrightarrow> x \<le> fold max ids (m::nat)"
proof (induction ids arbitrary: m)
  case Nil
  then show ?case by simp
next
  case (Cons a ids)
  show ?case
  proof (cases "x = a")
    case True
    have "a \<le> max a m" by simp
    also have "\<dots> \<le> fold max ids (max a m)" by (rule fold_max_ge)
    finally show ?thesis using True by simp
  next
    case False
    with Cons show ?thesis by simp
  qed
qed

lemma next_id_fresh: "next_id ids \<notin> set ids"
  using fold_max_mem [of "next_id ids" ids 0] by (auto simp: next_id_def)

lemma notin_map: "v \<notin> set (map f xs) \<Longrightarrow> x \<in> set xs \<Longrightarrow> f x \<noteq> v"
  by (metis imageI set_map)

lemma find_append_fresh:
  "\<forall>x \<in> set xs. \<not> P x \<Longrightarrow> P y \<Longrightarrow> find P (xs @ [y]) = Some y"
  by (induction xs) auto

lemma find_mem: "x \<in> set (map f xs) \<Longrightarrow> \<exists>y. find (\<lambda>z. f z = x) xs = Some y"
  by (induction xs) auto


lemma user_by_email_None: "user_by_email s e = None \<longleftrightarrow> e \<notin> set (map usr_email (users s))"
  by (auto simp: user_by_email_def find_None_iff)

lemma user_by_email_Some: "user_by_email s e = Some u \<Longrightarrow> u \<in> set (users s) \<and> usr_email u = e"
  by (auto simp: user_by_email_def find_Some_iff)

lemma get_post_Some: "get_post s i = Some p \<Longrightarrow> p \<in> set (blog_posts s) \<and> bp_id p = i"
  by (auto simp: get_post_def find_Some_iff)

subsection \<open>Columns\<close>

lemma varchar_fits: "length x \<le> n \<Longrightarrow> varchar n x = Inr x"
  by (simp add: varchar_def)

lemma varchar_long: "n < length x \<Longrightarrow> last x \<noteq> CHR '' '' \<Longrightarrow> varchar n x = Inl DataError"
proof -
  assume n: "n < length x" and l: "last x \<noteq> CHR '' ''"
  then have "drop n x \<noteq> []" by simp
  then have "last (drop n x) \<in> set (drop n x)" by (rule last_in_set)
  moreover have "last (drop n x) = last x" using n by simp
  ultimately have "\<not> list_all (\<lambda>c. c = CHR '' '') (drop n x)"
    using l by (auto simp: list_all_iff)
  with n show ?thesis by (simp add: varchar_def)
qed

lemma assign_fits: "length new \<le> n \<Longrightarrow> assign n old new = Inr new"
  by (simp add: assign_def varchar_fits)

lemma commit_User_fits:
  assumes "length email \<le> 100" and "length password \<le> 100" and "length name \<le> 100"
    and "email \<notin> set (map usr_email (users s))" and "new_id \<notin> set (map usr_id (users s))"
  shows "commit_User new_id email password name s =
           Inr (\<lparr>usr_id = new_id, usr_email = email, usr_password = password, usr_name = name\<rparr>,
                s\<lparr>users := users s @
                   [\<lparr>usr_id = new_id, usr_email = email, usr_password = password,
                     usr_name = name\<rparr>]\<rparr>)"
  using assms by (simp add: commit_User_def varchar_fits Let_def)

lemma commit_User_Inr:
  assumes "commit_User new_id email password name s = Inr (u, s')"
  shows "usr_id u = new_id \<and> new_id \<notin> set (map usr_id (users s))
         \<and> usr_email u \<notin> set (map usr_email (users s))
         \<and> varchar 100 email = Inr (usr_email u)
         \<and> s' = s\<lparr>users := users s @ [u]\<rparr>"
proof -
  from assms obtain e where e: "varchar 100 email = Inr e"
    by (cases "varchar 100 email") (simp_all add: commit_User_def)
  from assms e obtain p where p: "varchar 100 password = Inr p"
    by (cases "varchar 100 password") (simp_all add: commit_User_def)
  from assms e p obtain n where n: "varchar 100 name = Inr n"
    by (cases "varchar 100 name") (simp_all add: commit_User_def)
  from assms e p n show ?thesis
    by (simp add: commit_User_def Let_def split: if_splits) auto
qed

lemma commit_BlogPost_fits:
  assumes "length title \<le> 250" and "length subtitle \<le> 250" and "length date \<le> 250"
    and "length img_url \<le> 250"
    and "title \<notin> set (map bp_title (blog_posts s))" and "new_id \<notin> set (map bp_id (blog_posts s))"
  shows "commit_BlogPost new_id title subtitle body img_url author date s =
           Inr (s\<lparr>blog_posts := blog_posts s @
                  [\<lparr>bp_id = new_id, bp_author_id = usr_id author, bp_title = title,
                    bp_subtitle = subtitle, bp_date = date, bp_body = body,
                    bp_img_url = img_url\<rparr>]\<rparr>)"
  using assms by (simp add: commit_BlogPost_def varchar_fits Let_def)

lemma commit_BlogPost_Inr:
  assumes "commit_BlogPost new_id title subtitle body img_url author date s = Inr s'"
  shows "\<exists>p. s' = s\<lparr>blog_posts := blog_posts s @ [p]\<rparr> \<and> bp_id p = new_id
             \<and> varchar 250 date = Inr (bp_date p)"
proof -
  from assms obtain t where t: "varchar 250 title = Inr t"
    by (cases "varchar 250 title") (simp_all add: commit_BlogPost_def)
  from assms t obtain u where u: "varchar 250 subtitle = Inr u"
    by (cases "varchar 250 subtitle") (simp_all add: commit_BlogPost_def)
  from assms t u obtain d where d: "varchar 250 date = Inr d"
    by (cases "varchar 250 date") (simp_all add: commit_BlogPost_def)
  from assms t u d obtain i where i: "varchar 250 img_url = Inr i"
    by (cases "varchar 250 img_url") (simp_all add: commit_BlogPost_def)
  from assms t u d i show ?thesis
    by (simp add: commit_BlogPost_def Let_def split: if_splits) auto
qed

lemma remove_post_split:
  "find (\<lambda>x. bp_id x = i) ps = Some p \<Longrightarrow>
   \<exists>xs ys. ps = xs @ p # ys \<and> remove_post i ps = xs @ ys"
proof (induction ps)
  case Nil
  then show ?case by simp
next
  case (Cons a ps)
  show ?case
  proof (cases "bp_id a = i")
    case True
    with Cons.prems have "a = p" by simp
    with True have "a # ps = [] @ p # ps \<and> remove_post i (a # ps) = [] @ ps" by simp
    then show ?thesis by blast
  next
    case False
    with Cons obtain xs ys where "ps = xs @ p # ys" "remove_post i ps = xs @ ys"
      by auto
    with False have "a # ps = (a # xs) @ p # ys \<and> remove_post i (a # ps) = (a # xs) @ ys"
      by simp
    then show ?thesis by blast
  qed
qed

lemma commit_edit_Inr:
  assumes "commit_edit old new s = Inr s'"
  shows "s' = s \<or> (\<exists>t u i. s' = s\<lparr>blog_posts := remove_post (bp_id old) (blog_posts s) @
                      [new\<lparr>bp_title := t, bp_subtitle := u, bp_img_url := i\<rparr>]\<rparr>)"
proof (cases "new = old")
  case True
  with assms show ?thesis by (simp add: commit_edit_def)
next
  case False
  from assms False obtain t where t: "assign 250 (bp_title old) (bp_title new) = Inr t"
    by (cases "assign 250 (bp_title old) (bp_title new)") (simp_all add: commit_edit_def)
  from assms False t obtain u where u: "assign 250 (bp_subtitle old) (bp_subtitle new) = Inr u"
    by (cases "assign 250 (bp_subtitle old) (bp_subtitle new)") (simp_all add: commit_edit_def)
  from assms False t u obtain i where i: "assign 250 (bp_img_url old) (bp_img_url new) = Inr i"
    by (cases "assign 250 (bp_img_url old) (bp_img_url new)") (simp_all add: commit_edit_def)
  from assms False t u i show ?thesis
    by (simp add: commit_edit_def split: if_splits) blast
qed

lemma commit_edit_fits:
  assumes "new \<noteq> old"
    and "length (bp_title new) \<le> 250" and "length (bp_subtitle new) \<le> 250"
    and "length (bp_img_url new) \<le> 250"
    and "bp_title new
           \<notin> set (map bp_title (filter (\<lambda>p. bp_id p \<noteq> bp_id old) (blog_posts s)))"
  shows "commit_edit old new s =
           Inr (s\<lparr>blog_posts := remove_post (bp_id old) (blog_posts s) @ [new]\<rparr>)"
  using assms by (simp add: commit_edit_def assign_fits)

lemma commit_edit_clash:
  assumes "new \<noteq> old"
    and "length (bp_title new) \<le> 250" and "length (bp_subtitle new) \<le> 250"
    and "length (bp_img_url new) \<le> 250"
    and "bp_title new
           \<in> set (map bp_title (filter (\<lambda>p. bp_id p \<noteq> bp_id old) (blog_posts s)))"
  shows "commit_edit old new s = Inl IntegrityError"
  using assms by (simp add: commit_edit_def assign_fits)

subsection \<open>The session\<close>

lemma current_user_cong:
  assumes "users s' = users s" and "session_user_id s' = session_user_id s"
  shows "current_user s' = current_user s"
  unfolding current_user_def load_user_def assms ..

lemma flash_fields [simp]:
  "users (flash msg s) = users s" "blog_posts (flash msg s) = blog_posts s"
  "comments (flash msg s) = comments s" "session_user_id (flash msg s) = session_user_id s"
  by (simp_all add: flash_def)

lemma current_user_Inl: "current_user s = Inl r \<Longrightarrow> r = Abort 404"
  by (auto simp: current_user_def load_user_def split: option.splits)

lemma current_user_flash [simp]: "current_user (flash msg s) = current_user s"
  by (rule current_user_cong) simp_all

lemma current_user_login_new:
  assumes "usr_id nu \<notin> set (map usr_id us)"
  shows "current_user (login_user nu (s\<lparr>users := us @ [nu]\<rparr>)) = Inr (Authenticated nu)"
proof -
  have "find (\<lambda>u. usr_id u = usr_id nu) (us @ [nu]) = Some nu"
    using assms by (intro find_append_fresh) (simp_all add: notin_map)
  then show ?thesis
    by (simp add: current_user_def load_user_def login_user_def)
qed

lemma get_current_user_state:
  "(\<And>cu. P (snd (view cu s))) \<Longrightarrow> P s \<Longrightarrow> P (snd (get_current_user view s))"
  by (auto simp: get_current_user_def split: sum.splits)

lemma admin_only_authenticated:
  "current_user s = Inr (Authenticated u) \<Longrightarrow>
   admin_only (get_current_user view) s = view (Authenticated u) s"
  by (simp add: admin_only_def login_required_def admin_only_wrapper_def get_current_user_def)

lemma admin_only_state:
  "(\<And>cu. P (snd (view cu s))) \<Longrightarrow> P s \<Longrightarrow> P (snd (admin_only (get_current_user view) s))"
  by (auto simp: admin_only_def login_required_def admin_only_wrapper_def get_current_user_def
      split: sum.splits identity.splits)

subsection \<open>Registration\<close>


lemma register_answered:
  assumes "register g k (Validated f) s = (Redirect Get_all_posts_ep, s')"
  shows "\<exists>new_user. commit_User k (rf_email f) (g (rf_password f)) (rf_name f) s
                       = Inr (new_user, s\<lparr>users := users s @ [new_user]\<rparr>)
           \<and> user_by_email s (rf_email f) = None
           \<and> s' = login_user new_user (s\<lparr>users := users s @ [new_user]\<rparr>)
           \<and> current_user s' = Inr (Authenticated new_user)"
proof -
  from assms obtain cu where cu: "current_user s = Inr cu"
    by (cases "current_user s")
      (auto simp: register_def get_current_user_def dest: current_user_Inl)
  from assms cu have none: "user_by_email s (rf_email f) = None"
    by (cases "user_by_email s (rf_email f)")
      (simp_all add: register_def get_current_user_def register_view_def)
  from assms cu none obtain nu s0
    where c: "commit_User k (rf_email f) (g (rf_password f)) (rf_name f) s = Inr (nu, s0)"
    by (cases "commit_User k (rf_email f) (g (rf_password f)) (rf_name f) s")
      (auto simp: register_def get_current_user_def register_view_def)
  from commit_User_Inr [OF c] have s0: "s0 = s\<lparr>users := users s @ [nu]\<rparr>"
    and fresh: "usr_id nu \<notin> set (map usr_id (users s))"
    by simp_all
  from assms cu none c have s': "s' = login_user nu s0"
    by (simp add: register_def get_current_user_def register_view_def)
  have "current_user (login_user nu (s\<lparr>users := users s @ [nu]\<rparr>)) = Inr (Authenticated nu)"
    using fresh by (rule current_user_login_new)
  with c s0 s' none show ?thesis by auto
qed

lemma register_new:
  assumes "user_by_email s (rf_email f) = None"
    and "current_user s = Inr cu"
    and "length (rf_email f) \<le> 100" and "length (g (rf_password f)) \<le> 100"
    and "length (rf_name f) \<le> 100"
    and "k \<notin> set (map usr_id (users s))"
  shows "register g k (Validated f) s =
           (Redirect Get_all_posts_ep,
            login_user
              \<lparr>usr_id = k, usr_email = rf_email f, usr_password = g (rf_password f),
                usr_name = rf_name f\<rparr>
              (s\<lparr>users := users s @
                 [\<lparr>usr_id = k, usr_email = rf_email f, usr_password = g (rf_password f),
                   usr_name = rf_name f\<rparr>]\<rparr>))"
proof -
  have "rf_email f \<notin> set (map usr_email (users s))"
    using assms(1) by (simp add: user_by_email_None)
  from commit_User_fits [OF assms(3-5) this assms(6)] assms(1,2) show ?thesis
    by (simp add: register_def get_current_user_def register_view_def)
qed

subsection \<open>Dates\<close>

lemma digit_0: "digit 0 = CHR ''0''"
  by (simp add: digit_def)

lemma decimal_1: "n < 10 \<Longrightarrow> decimal n = [digit n]"
  by (simp add: decimal.simps)

lemma decimal_2: "10 \<le> n \<Longrightarrow> n < 100 \<Longrightarrow> decimal n = [digit (n div 10), digit (n mod 10)]"
  using decimal.simps [of n] by (simp add: decimal_1)

lemma decimal_3:
  "100 \<le> n \<Longrightarrow> n < 1000 \<Longrightarrow>
   decimal n = [digit (n div 100), digit (n div 10 mod 10), digit (n mod 10)]"
  using decimal.simps [of n] decimal_2 [of "n div 10"] by (simp add: div_mult2_eq [symmetric])

lemma decimal_4:
  "1000 \<le> n \<Longrightarrow> n < 10000 \<Longrightarrow>
   decimal n = [digit (n div 1000), digit (n div 100 mod 10), digit (n div 10 mod 10),
                digit (n mod 10)]"
  using decimal.simps [of n] decimal_3 [of "n div 10"] by (simp add: div_mult2_eq [symmetric])

lemma strftime_d_two:
  "day d < 100 \<Longrightarrow> strftime_d d = [digit (day d div 10), digit (day d mod 10)]"
  by (cases "day d < 10") (simp_all add: strftime_d_def decimal_1 decimal_2 digit_0)

lemma strftime_format:
  assumes "valid_date d" and "1000 \<le> year d"
  shows "strftime d = month_names ! (month d - 1) @ '' ''
            @ [digit (day d div 10), digit (day d mod 10)] @ '', ''
            @ [digit (year d div 1000), digit (year d div 100 mod 10),
               digit (year d div 10 mod 10), digit (year d mod 10)]"
  using assms
  by (simp add: strftime_def strftime_B_def strftime_Y_def valid_date_def strftime_d_two decimal_4)

lemma month_name_length: "i < 12 \<Longrightarrow> length (month_names ! i) \<le> 9"
proof -
  have "list_all (\<lambda>n. length n \<le> 9) month_names"
    by (simp add: month_names_def)
  moreover have "length month_names = 12"
    by (simp add: month_names_def)
  ultimately show "i < 12 \<Longrightarrow> length (month_names ! i) \<le> 9"
    by (simp add: list_all_length)
qed

lemma strftime_length:
  assumes "valid_date d" and "1000 \<le> year d"
  shows "length (strftime d) \<le> 250"
proof -
  have "month d - 1 < 12"
    using assms(1) unfolding valid_date_def by arith
  from month_name_length [OF this] show ?thesis
    unfolding strftime_format [OF assms] by simp
qed

subsection \<open>Posts\<close>

lemma add_new_post_view_posts:
  assumes "length (strftime today) \<le> 250"
  shows "blog_posts (snd (add_new_post_view today k form cu s)) = blog_posts s
   \<or> (\<exists>p. blog_posts (snd (add_new_post_view today k form cu s)) = blog_posts s @ [p]
          \<and> bp_id p = k \<and> bp_date p = strftime today)"
proof (cases form)
  case Not_validated
  then show ?thesis by (simp add: add_new_post_view_def)
next
  case (Validated f)
  show ?thesis
  proof (cases cu)
    case Anonymous
    with Validated show ?thesis by (simp add: add_new_post_view_def)
  next
    case (Authenticated u)
    show ?thesis
    proof (cases "commit_BlogPost k (pf_title f) (pf_subtitle f) (pf_body f) (pf_img_url f)
                    u (strftime today) s")
      case (Inl e)
      with Validated Authenticated show ?thesis by (simp add: add_new_post_view_def)
    next
      case (Inr s')
      from commit_BlogPost_Inr [OF Inr] obtain p
        where "s' = s\<lparr>blog_posts := blog_posts s @ [p]\<rparr>" "bp_id p = k"
          "varchar 250 (strftime today) = Inr (bp_date p)"
        by blast
      with assms Validated Authenticated Inr show ?thesis
        by (simp add: add_new_post_view_def varchar_fits)
    qed
  qed
qed

lemma edit_post_view_posts:
  "blog_posts (snd (edit_post_view i form cu s)) = blog_posts s
   \<or> (\<exists>xs p ys q. blog_posts s = xs @ p # ys
          \<and> blog_posts (snd (edit_post_view i form cu s)) = xs @ ys @ [q]
          \<and> bp_id q = bp_id p \<and> bp_date q = bp_date p)"
proof (cases "get_post s i")
  case None
  then show ?thesis by (simp add: edit_post_view_def)
next
  case (Some p)
  then have f: "find (\<lambda>x. bp_id x = bp_id p) (blog_posts s) = Some p"
    using get_post_Some [OF Some] by (simp add: get_post_def)
  from remove_post_split [OF f] obtain xs ys
    where split: "blog_posts s = xs @ p # ys" "remove_post (bp_id p) (blog_posts s) = xs @ ys"
    by blast
  show ?thesis
  proof (cases form)
    case Not_validated
    with Some show ?thesis by (simp add: edit_post_view_def)
  next
    case (Validated f)
    show ?thesis
    proof (cases cu)
      case Anonymous
      with Some Validated show ?thesis by (simp add: edit_post_view_def)
    next
      case (Authenticated u)
      let ?new = "p\<lparr>bp_title := pf_title f, bp_subtitle := pf_subtitle f,
                     bp_img_url := pf_img_url f, bp_author_id := usr_id u,
                     bp_body := pf_body f\<rparr>"
      show ?thesis
      proof (cases "commit_edit p ?new s")
        case (Inl e)
        with Some Validated Authenticated show ?thesis by (simp add: edit_post_view_def)
      next
        case (Inr s')
        from commit_edit_Inr [OF Inr] consider "s' = s"
          | t u' i' where "s' = s\<lparr>blog_posts := remove_post (bp_id p) (blog_posts s) @
                      [?new\<lparr>bp_title := t, bp_subtitle := u', bp_img_url := i'\<rparr>]\<rparr>"
          by blast
        then show ?thesis
        proof cases
          case 1
          with Some Validated Authenticated Inr show ?thesis by (simp add: edit_post_view_def)
        next
          case 2
          let ?q = "?new\<lparr>bp_title := t, bp_subtitle := u', bp_img_url := i'\<rparr>"
          have "blog_posts (snd (edit_post_view i form cu s)) = xs @ ys @ [?q]"
            using Some Validated Authenticated Inr 2 split(2) by (simp add: edit_post_view_def)
          moreover have "bp_id ?q = bp_id p" "bp_date ?q = bp_date p" by simp_all
          ultimately show ?thesis using split(1) by blast
        qed
      qed
    qed
  qed
qed

lemma edit_post_view_stamps: "mset (stamps (snd (edit_post_view i form cu s))) = mset (stamps s)"
  using edit_post_view_posts [of i form cu s] by (auto simp: stamps_def)

lemma edit_post_refuses_clash:
  assumes "current_user s = Inr (Authenticated u)"
    and "get_post s post_id = Some p"
    and "pf_title f \<in> set (map bp_title (filter (\<lambda>x. bp_id x \<noteq> post_id) (blog_posts s)))"
    and "pf_title f \<noteq> bp_title p"
    and "length (pf_title f) \<le> 250" and "length (pf_subtitle f) \<le> 250"
    and "length (pf_img_url f) \<le> 250"
  shows "edit_post post_id (Validated f) s = (Internal_Server_Error IntegrityError, s)"
proof -
  let ?new = "p\<lparr>bp_title := pf_title f, bp_subtitle := pf_subtitle f,
                 bp_img_url := pf_img_url f, bp_author_id := usr_id u, bp_body := pf_body f\<rparr>"
  have pid: "bp_id p = post_id"
    using get_post_Some [OF assms(2)] by simp
  have ne: "?new \<noteq> p"
  proof
    assume "?new = p"
    then have "bp_title ?new = bp_title p" by (rule arg_cong)
    with assms(4) show False by simp
  qed
  have "commit_edit p ?new s = Inl IntegrityError"
    using assms(3,5-7) pid by (intro commit_edit_clash [OF ne]) simp_all
  with assms(1,2) show ?thesis
    by (simp add: edit_post_def admin_only_authenticated edit_post_view_def)
qed

subsection \<open>Reachable states\<close>

text \<open>
  Every view function keeps \<open>store_ok\<close>, so it holds in every reachable state: the
  emails of the store are distinct and the current user resolves (to the anonymous user
  or to a row), which the theorems on registration and login assume of the state they
  start from.
\<close>

lemma store_ok_users_session:
  "users s' = users s \<Longrightarrow> session_user_id s' = session_user_id s \<Longrightarrow> store_ok s' = store_ok s"
  by (simp add: store_ok_def)

lemma store_ok_flash [simp]: "store_ok (flash msg s) = store_ok s"
  by (rule store_ok_users_session) simp_all

lemma store_ok_login_user:
  "store_ok s \<Longrightarrow> u \<in> set (users s) \<Longrightarrow> store_ok (login_user u s)"
  by (simp add: store_ok_def login_user_def)

lemma store_ok_logout_user: "store_ok s \<Longrightarrow> store_ok (logout_user s)"
  by (simp add: store_ok_def logout_user_def)

lemma store_ok_commit_User:
  assumes "store_ok s" and "commit_User k e pw n s = Inr (u, s')"
  shows "store_ok (login_user u s')"
  using assms(1) commit_User_Inr [OF assms(2)]
  by (auto simp: store_ok_def login_user_def)

lemma store_ok_register_view: "store_ok s \<Longrightarrow> store_ok (snd (register_view g k form cu s))"
  by (auto simp: register_view_def store_ok_commit_User split: form.splits option.splits sum.splits)

lemma store_ok_login_view: "store_ok s \<Longrightarrow> store_ok (snd (login_view chk form cu s))"
  by (auto simp: login_view_def store_ok_login_user dest: user_by_email_Some
      split: form.splits option.splits)

lemma store_ok_logout_view: "store_ok s \<Longrightarrow> store_ok (snd (logout_view cu s))"
  by (simp add: logout_view_def store_ok_logout_user)

lemma store_ok_show_post_view: "store_ok s \<Longrightarrow> store_ok (snd (show_post_view i form cu s))"
  by (auto simp: show_post_view_def commit_Comment_def store_ok_def Let_def
      split: form.splits option.splits sum.splits identity.splits)

lemma store_ok_add_new_post_view:
  assumes "store_ok s"
  shows "store_ok (snd (add_new_post_view today k form cu s))"
proof -
  have "users (snd (add_new_post_view today k form cu s)) = users s
        \<and> session_user_id (snd (add_new_post_view today k form cu s)) = session_user_id s"
    by (auto simp: add_new_post_view_def split: form.splits sum.splits identity.splits
        dest!: commit_BlogPost_Inr)
  with assms show ?thesis by (simp add: store_ok_def)
qed

lemma store_ok_edit_post_view:
  assumes "store_ok s"
  shows "store_ok (snd (edit_post_view i form cu s))"
proof -
  have "users (snd (edit_post_view i form cu s)) = users s
        \<and> session_user_id (snd (edit_post_view i form cu s)) = session_user_id s"
    by (auto simp: edit_post_view_def
        split: form.splits option.splits sum.splits identity.splits dest!: commit_edit_Inr)
  with assms show ?thesis by (simp add: store_ok_def)
qed

lemma store_ok_delete_post_view: "store_ok s \<Longrightarrow> store_ok (snd (delete_post_view i cu s))"
  by (auto simp: delete_post_view_def commit_delete_def store_ok_def
      split: option.splits sum.splits)

lemma store_ok_get_current_user:
  "(\<And>cu. store_ok (snd (view cu s))) \<Longrightarrow> store_ok s \<Longrightarrow>
   store_ok (snd (get_current_user view s))"
  by (rule get_current_user_state [where P = store_ok])

lemma store_ok_admin_only:
  "(\<And>cu. store_ok (snd (view cu s))) \<Longrightarrow> store_ok s \<Longrightarrow>
   store_ok (snd (admin_only (get_current_user view) s))"
  by (rule admin_only_state [where P = store_ok])

lemma store_ok_handle:
  assumes "store_ok s"
  shows "store_ok (snd (handle r s))"
proof (cases r)
  case Get_all_users
  with assms show ?thesis by (simp add: get_all_users_def)
next
  case (Register g k form)
  have "store_ok (snd (get_current_user (register_view g k form) s))"
    by (intro store_ok_get_current_user store_ok_register_view assms)
  with Register show ?thesis by (simp add: register_def)
next
  case (Login chk form)
  have "store_ok (snd (get_current_user (login_view chk form) s))"
    by (intro store_ok_get_current_user store_ok_login_view assms)
  with Login show ?thesis by (simp add: login_def)
next
  case Logout
  have "store_ok (snd (get_current_user logout_view s))"
    by (intro store_ok_get_current_user store_ok_logout_view assms)
  with Logout show ?thesis by (simp add: logout_def)
next
  case Get_all_posts
  have "store_ok (snd (get_current_user get_all_posts_view s))"
    using assms by (intro store_ok_get_current_user) (simp_all add: get_all_posts_view_def)
  with Get_all_posts show ?thesis by (simp add: get_all_posts_def)
next
  case (Show_post i form)
  have "store_ok (snd (get_current_user (show_post_view i form) s))"
    by (intro store_ok_get_current_user store_ok_show_post_view assms)
  with Show_post show ?thesis by (simp add: show_post_def)
next
  case (Add_new_post today k form)
  have "store_ok (snd (admin_only (get_current_user (add_new_post_view today k form)) s))"
    by (intro store_ok_admin_only store_ok_add_new_post_view assms)
  with Add_new_post show ?thesis by (simp add: add_new_post_def)
next
  case (Edit_post i form)
  have "store_ok (snd (admin_only (get_current_user (edit_post_view i form)) s))"
    by (intro store_ok_admin_only store_ok_edit_post_view assms)
  with Edit_post show ?thesis by (simp add: edit_post_def)
next
  case (Delete_post i)
  have "store_ok (snd (admin_only (get_current_user (delete_post_view i)) s))"
    by (intro store_ok_admin_only store_ok_delete_post_view assms)
  with Delete_post show ?thesis by (simp add: delete_post_def)
next
  case About
  have "store_ok (snd (get_current_user about_view s))"
    using assms by (intro store_ok_get_current_user) (simp_all add: about_view_def)
  with About show ?thesis by (simp add: about_def)
next
  case Contact
  have "store_ok (snd (get_current_user contact_view s))"
    using assms by (intro store_ok_get_current_user) (simp_all add: contact_view_def)
  with Contact show ?thesis by (simp add: contact_def)
qed

lemma store_ok_init: "store_ok init_state"
  by (simp add: store_ok_def init_state_def)

lemma reachable_store_ok: "reachable s \<Longrightarrow> store_ok s"
  by (induction rule: reachable.induct) (simp_all add: store_ok_init store_ok_handle)

lemma store_ok_current_user: "store_ok s \<Longrightarrow> \<exists>cu. current_user s = Inr cu"
proof (cases "session_user_id s")
  case None
  then show ?thesis by (simp add: current_user_def)
next
  case (Some i)
  assume "store_ok s"
  with Some have "i \<in> set (map usr_id (users s))"
    by (simp add: store_ok_def)
  from find_mem [OF this] obtain u where "find (\<lambda>z. usr_id z = i) (users s) = Some u" ..
  with Some show ?thesis by (simp add: current_user_def load_user_def)
qed

lemma reachable_hypotheses:
  "reachable s \<Longrightarrow> distinct (map usr_email (users s)) \<and> (\<exists>cu. current_user s = Inr cu)"
  using reachable_store_ok store_ok_current_user by (auto simp: store_ok_def)

subsection \<open>The gate and the logout, for every state\<close>

lemma admin_only_anonymous:
  "session_user_id s = None \<Longrightarrow> admin_only f s = (Abort 401, s)"
  by (simp add: admin_only_def login_required_def current_user_def)

lemma admin_only_never_forbids:
  "current_user s = Inr (Authenticated u) \<Longrightarrow> admin_only f s = f s"
  by (simp add: admin_only_def login_required_def admin_only_wrapper_def)

lemma logout_anonymous: "session_user_id s = None \<Longrightarrow> logout s = (Internal_Server_Error TypeError, s)"
  by (simp add: logout_def logout_view_def get_current_user_def current_user_def)

subsection \<open>The dictionary of all users\<close>

text \<open>
  Where the names of the users are distinct, the dictionary of \<^verbatim>\<open>get_all_users\<close>
  has the entry of every user under the user's name.
\<close>

lemma fold_update_other:
  "k \<notin> set (map nm us) \<Longrightarrow>
   map_of (fold (\<lambda>user d. AList.update (nm user) (g user) d) us d0) k = map_of d0 k"
proof (induction us arbitrary: d0)
  case Nil
  then show ?case by simp
next
  case (Cons a us)
  then have 1: "k \<noteq> nm a" and 2: "k \<notin> set (map nm us)" by auto
  have "map_of (fold (\<lambda>user d. AList.update (nm user) (g user) d) (a # us) d0) k
      = map_of (fold (\<lambda>user d. AList.update (nm user) (g user) d) us
           (AList.update (nm a) (g a) d0)) k"
    by simp
  also have "\<dots> = map_of (AList.update (nm a) (g a) d0) k"
    by (rule Cons.IH [OF 2])
  also have "\<dots> = map_of d0 k"
    using 1 by (simp add: update_conv')
  finally show ?case .
qed

lemma fold_update_distinct:
  "distinct (map nm us) \<Longrightarrow> u \<in> set us \<Longrightarrow>
   map_of (fold (\<lambda>user d. AList.update (nm user) (g user) d) us d0) (nm u) = Some (g u)"
proof (induction us arbitrary: d0)
  case Nil
  then show ?case by simp
next
  case (Cons a us)
  let ?d1 = "AList.update (nm a) (g a) d0"
  have step: "fold (\<lambda>user d. AList.update (nm user) (g user) d) (a # us) d0
      = fold (\<lambda>user d. AList.update (nm user) (g user) d) us ?d1"
    by simp
  show ?case
  proof (cases "u = a")
    case True
    with Cons.prems have "nm a \<notin> set (map nm us)" by simp
    then have "map_of (fold (\<lambda>user d. AList.update (nm user) (g user) d) us ?d1) (nm a)
                 = map_of ?d1 (nm a)"
      by (rule fold_update_other)
    also have "\<dots> = Some (g a)"
      by (simp add: update_conv')
    finally show ?thesis
      unfolding step True .
  next
    case False
    with Cons.prems have "distinct (map nm us)" "u \<in> set us" by simp_all
    then have "map_of (fold (\<lambda>user d. AList.update (nm user) (g user) d) us ?d1) (nm u)
                 = Some (g u)"
      by (rule Cons.IH)
    then show ?thesis
      unfolding step .
  qed
qed

lemma get_all_users_distinct_names:
  assumes "distinct (map usr_name (users s))" and "u \<in> set (users s)"
  shows "\<exists>d. get_all_users s = (Jsonify d, s)
           \<and> map_of d (usr_name u)
               = Some \<lparr>ue_id = usr_id u, ue_name = usr_name u, ue_email = usr_email u\<rparr>"
proof -
  let ?g = "\<lambda>user. \<lparr>ue_id = usr_id user, ue_name = usr_name user, ue_email = usr_email user\<rparr>"
  let ?d = "fold (\<lambda>user d. AList.update (usr_name user) (?g user) d) (users s) []"
  have "get_all_users s = (Jsonify ?d, s)"
    by (simp add: get_all_users_def)
  moreover have "map_of ?d (usr_name u) = Some (?g u)"
    using assms by (rule fold_update_distinct)
  ultimately show ?thesis by blast
qed

subsection \<open>The dates under every request\<close>

text \<open>
  No request changes the date of a post: after a request the posts have the keys and
  dates they had, less those of a deleted post; only \<^verbatim>\<open>add_new_post\<close> adds one, under
  the key that the store gave it.
\<close>

lemma delete_post_view_stamps: "set (stamps (snd (delete_post_view i cu s))) \<subseteq> set (stamps s)"
  by (auto simp: stamps_def delete_post_view_def commit_delete_def split: option.splits)

lemma show_post_view_stamps: "stamps (snd (show_post_view i form cu s)) = stamps s"
  by (simp add: stamps_def show_post_view_def commit_Comment_def Let_def
      split: option.splits form.splits identity.splits)

lemma register_view_stamps: "stamps (snd (register_view g k form cu s)) = stamps s"
  by (auto simp: stamps_def register_view_def login_user_def
      split: option.splits form.splits sum.splits dest!: commit_User_Inr)

lemma login_view_stamps: "stamps (snd (login_view chk form cu s)) = stamps s"
  by (simp add: stamps_def login_view_def login_user_def
      split: option.splits form.splits)

lemma logout_view_stamps: "stamps (snd (logout_view cu s)) = stamps s"
  by (simp add: stamps_def logout_view_def logout_user_def)

lemma add_new_post_view_stamps:
  "stamps (snd (add_new_post_view today k form cu s)) = stamps s
   \<or> (\<exists>d. stamps (snd (add_new_post_view today k form cu s)) = stamps s @ [(k, d)])"
  by (auto simp: stamps_def add_new_post_view_def
      split: form.splits sum.splits identity.splits dest!: commit_BlogPost_Inr)

lemma handle_stamps:
  "(\<exists>today k form d. r = Add_new_post today k form
       \<and> stamps (snd (handle r s)) = stamps s @ [(k, d)])
   \<or> set (stamps (snd (handle r s))) \<subseteq> set (stamps s)"
proof (cases r)
  case Get_all_users
  then show ?thesis by (simp add: get_all_users_def)
next
  case (Register g k form)
  have "stamps (snd (get_current_user (register_view g k form) s)) = stamps s"
    by (rule get_current_user_state [where P = "\<lambda>t. stamps t = stamps s"])
      (simp_all add: register_view_stamps)
  with Register show ?thesis by (simp add: register_def)
next
  case (Login chk form)
  have "stamps (snd (get_current_user (login_view chk form) s)) = stamps s"
    by (rule get_current_user_state [where P = "\<lambda>t. stamps t = stamps s"])
      (simp_all add: login_view_stamps)
  with Login show ?thesis by (simp add: login_def)
next
  case Logout
  have "stamps (snd (get_current_user logout_view s)) = stamps s"
    by (rule get_current_user_state [where P = "\<lambda>t. stamps t = stamps s"])
      (simp_all add: logout_view_stamps)
  with Logout show ?thesis by (simp add: logout_def)
next
  case Get_all_posts
  have "stamps (snd (get_current_user get_all_posts_view s)) = stamps s"
    by (rule get_current_user_state [where P = "\<lambda>t. stamps t = stamps s"])
      (simp_all add: get_all_posts_view_def)
  with Get_all_posts show ?thesis by (simp add: get_all_posts_def)
next
  case (Show_post i form)
  have "stamps (snd (get_current_user (show_post_view i form) s)) = stamps s"
    by (rule get_current_user_state [where P = "\<lambda>t. stamps t = stamps s"])
      (simp_all add: show_post_view_stamps)
  with Show_post show ?thesis by (simp add: show_post_def)
next
  case (Add_new_post today k form)
  have "stamps (snd (admin_only (get_current_user (add_new_post_view today k form)) s)) = stamps s
        \<or> (\<exists>d. stamps (snd (admin_only (get_current_user (add_new_post_view today k form)) s))
             = stamps s @ [(k, d)])"
    by (rule admin_only_state
          [where P = "\<lambda>t. stamps t = stamps s \<or> (\<exists>d. stamps t = stamps s @ [(k, d)])"])
      (simp_all add: add_new_post_view_stamps)
  with Add_new_post show ?thesis by (auto simp: add_new_post_def)
next
  case (Edit_post i form)
  have "mset (stamps (snd (admin_only (get_current_user (edit_post_view i form)) s)))
          = mset (stamps s)"
    by (rule admin_only_state [where P = "\<lambda>t. mset (stamps t) = mset (stamps s)"])
      (simp_all add: edit_post_view_stamps)
  then have "set (stamps (snd (admin_only (get_current_user (edit_post_view i form)) s)))
          = set (stamps s)"
    by (rule mset_eq_setD)
  with Edit_post show ?thesis by (simp add: edit_post_def)
next
  case (Delete_post i)
  have "set (stamps (snd (admin_only (get_current_user (delete_post_view i)) s)))
          \<subseteq> set (stamps s)"
    by (rule admin_only_state [where P = "\<lambda>t. set (stamps t) \<subseteq> set (stamps s)"])
      (simp_all add: delete_post_view_stamps)
  with Delete_post show ?thesis by (simp add: delete_post_def)
next
  case About
  have "stamps (snd (get_current_user about_view s)) = stamps s"
    by (rule get_current_user_state [where P = "\<lambda>t. stamps t = stamps s"])
      (simp_all add: about_view_def)
  with About show ?thesis by (simp add: about_def)
next
  case Contact
  have "stamps (snd (get_current_user contact_view s)) = stamps s"
    by (rule get_current_user_state [where P = "\<lambda>t. stamps t = stamps s"])
      (simp_all add: contact_view_def)
  with Contact show ?thesis by (simp add: contact_def)
qed

subsection \<open>Sample values\<close>

lemma strftime_a_day: "strftime a_day = ''March 03, 2024''"
  by (simp add: strftime_def strftime_B_def strftime_d_def strftime_Y_def a_day_def
      month_names_def decimal.simps digit_def)

lemma current_user_blog:
  "current_user (blog None) = Inr Anonymous"
  "current_user (blog (Some 1)) = Inr (Authenticated alice)"
  "current_user (blog (Some 2)) = Inr (Authenticated bob)"
  by (simp_all add: current_user_def load_user_def sample_defs)

lemma get_post_blog:
  "get_post (blog session) 1 = Some post1" "get_post (blog session) 2 = Some post2"
  by (simp_all add: get_post_def sample_defs)

lemma varchar_long_form: "varchar 250 (pf_img_url long_form) = Inl DataError"
  by (rule varchar_long) (simp_all add: long_form_def)

section \<open>The claims\<close>

subsection \<open>C1: the admin gate\<close>

text \<open>
  C1 says that an authenticated caller other than the user with id 1 is denied with 403 on
  new-post, edit-post and delete. The test of \<^verbatim>\<open>admin_only\<close> is a conjunction with
  \<^verbatim>\<open>not current_user.is_authenticated\<close>, which is false behind
  \<^verbatim>\<open>login_required\<close>, so it never denies: Bob (id 2), logged in, creates a post, edits
  post 1 and deletes post 1, each answered with the redirect of a successful operation.
\<close>

theorem admin_only_admits_non_admin:
  "current_user (blog (Some 2)) = Inr (Authenticated bob)
   \<and> usr_id bob \<noteq> 1
   \<and> fst (add_new_post a_day 3 (Validated new_form) (blog (Some 2))) = Redirect Get_all_posts_ep
   \<and> map bp_title (blog_posts (snd (add_new_post a_day 3 (Validated new_form) (blog (Some 2)))))
       = [''P1'', ''P2'', ''P3'']
   \<and> fst (edit_post 1 (Validated new_form) (blog (Some 2))) = Redirect (Show_post_ep 1)
   \<and> map bp_title (blog_posts (snd (edit_post 1 (Validated new_form) (blog (Some 2)))))
       = [''P2'', ''P3'']
   \<and> fst (delete_post 1 (blog (Some 2))) = Redirect Get_all_posts_ep
   \<and> blog_posts (snd (delete_post 1 (blog (Some 2)))) = [post2]"
  by (simp add: gate_defs sample_defs strftime_a_day add_new_post_def add_new_post_view_def
      commit_BlogPost_def varchar_def edit_post_def edit_post_view_def commit_edit_def
      assign_def get_post_def delete_post_def delete_post_view_def commit_delete_def)

subsection \<open>C2: registering an email twice\<close>



subsection \<open>C3: login with a wrong password\<close>

text \<open>
  C3: when the email is that of a registered user and \<^verbatim>\<open>check_password_hash\<close> rejects
  the submitted password for the stored hash, login answers with the flash message
  "Password incorrect" and the redirect to the login page, and the session is untouched:
  the caller's identity after the request is the one before it, Anonymous for an
  anonymous caller.
\<close>

theorem login_wrong_password:
  assumes "user_by_email s (lf_email f) = Some u"
    and "\<not> check_password_hash (usr_password u) (lf_password f)"
    and "current_user s = Inr cu"
  shows "login check_password_hash (Validated f) s =
           (Redirect Login_ep, flash ''Password incorrect, please try again.'' s)
         \<and> session_user_id (snd (login check_password_hash (Validated f) s)) = session_user_id s
         \<and> current_user (snd (login check_password_hash (Validated f) s)) = Inr cu"
  using assms by (simp add: login_def get_current_user_def login_view_def)

theorem login_wrong_password_witness:
  "user_by_email (blog None) (lf_email wrong_login) = Some alice
   \<and> \<not> toy_check (usr_password alice) (lf_password wrong_login)
   \<and> current_user (blog None) = Inr Anonymous
   \<and> login toy_check (Validated wrong_login) (blog None) =
       (Redirect Login_ep, flash ''Password incorrect, please try again.'' (blog None))
   \<and> session_user_id (snd (login toy_check (Validated wrong_login) (blog None))) = None
   \<and> current_user (snd (login toy_check (Validated wrong_login) (blog None))) = Inr Anonymous"
proof -
  have h1: "user_by_email (blog None) (lf_email wrong_login) = Some alice"
    by (simp add: user_by_email_def sample_defs)
  have h2: "\<not> toy_check (usr_password alice) (lf_password wrong_login)"
    by (simp add: sample_defs)
  have h3: "current_user (blog None) = Inr Anonymous"
    by (simp add: current_user_def blog_def)
  have "session_user_id (blog None) = None"
    by (simp add: blog_def)
  with login_wrong_password
      [where s = "blog None" and f = wrong_login and u = alice
         and check_password_hash = toy_check and cu = Anonymous, OF h1 h2 h3]
    h1 h2 h3
  show ?thesis
    by simp
qed

subsection \<open>C4: logout without a session\<close>

text \<open>
  C4 says that logout by a caller who is not authenticated is a silent no-op that
  resolves to a normal response. The state is indeed unchanged, but the view function has
  no \<^verbatim>\<open>return\<close> on that path: it returns \<^verbatim>\<open>None\<close>, and the request ends in a
  server error.
\<close>

theorem logout_anonymous_server_error:
  "current_user init_state = Inr Anonymous
   \<and> logout init_state = (Internal_Server_Error TypeError, init_state)"
  by (simp add: logout_def logout_view_def get_current_user_def current_user_def init_state_def)

subsection \<open>C5: the date of a post\<close>

text \<open>
  C5: the date of a post is set when the post is created, to the current date written as
  the full name of the month, the day in two digits, a comma and the year in four digits
  (for a date of the calendar from the year 1000 on), and editing leaves the date of every
  post as it is. The first conjunct is the creation by an authenticated caller, with a
  title that no post has, values that fit the columns of the table and a key that the
  table does not have; the second says that \<^verbatim>\<open>add_new_post\<close>, whatever its outcome,
  leaves the posts alone or appends one post with that date; the third is the format; the
  fourth is the edit: whatever its outcome, the posts have the keys and dates they had.
\<close>

theorem post_date:
  assumes "valid_date today" and "1000 \<le> year today"
  shows "(current_user s = Inr (Authenticated u)
            \<longrightarrow> pf_title f \<notin> set (map bp_title (blog_posts s))
            \<longrightarrow> length (pf_title f) \<le> 250 \<longrightarrow> length (pf_subtitle f) \<le> 250
            \<longrightarrow> length (pf_img_url f) \<le> 250
            \<longrightarrow> k \<notin> set (map bp_id (blog_posts s))
            \<longrightarrow> (\<exists>p. add_new_post today k (Validated f) s
                        = (Redirect Get_all_posts_ep, s\<lparr>blog_posts := blog_posts s @ [p]\<rparr>)
                     \<and> bp_date p = strftime today \<and> bp_title p = pf_title f
                     \<and> bp_subtitle p = pf_subtitle f \<and> bp_body p = pf_body f
                     \<and> bp_img_url p = pf_img_url f \<and> bp_author_id p = usr_id u))
       \<and> (blog_posts (snd (add_new_post today k form s)) = blog_posts s
            \<or> (\<exists>p. blog_posts (snd (add_new_post today k form s)) = blog_posts s @ [p]
                   \<and> bp_date p = strftime today))
       \<and> strftime today = month_names ! (month today - 1) @ '' ''
            @ [digit (day today div 10), digit (day today mod 10)] @ '', ''
            @ [digit (year today div 1000), digit (year today div 100 mod 10),
               digit (year today div 10 mod 10), digit (year today mod 10)]
       \<and> mset (stamps (snd (edit_post post_id edit_form s))) = mset (stamps s)"
proof -
  have len: "length (strftime today) \<le> 250"
    using assms by (rule strftime_length)
  have 1: "\<exists>p. add_new_post today k (Validated f) s
                 = (Redirect Get_all_posts_ep, s\<lparr>blog_posts := blog_posts s @ [p]\<rparr>)
              \<and> bp_date p = strftime today \<and> bp_title p = pf_title f
              \<and> bp_subtitle p = pf_subtitle f \<and> bp_body p = pf_body f
              \<and> bp_img_url p = pf_img_url f \<and> bp_author_id p = usr_id u"
    if "current_user s = Inr (Authenticated u)"
      and "pf_title f \<notin> set (map bp_title (blog_posts s))"
      and "length (pf_title f) \<le> 250" and "length (pf_subtitle f) \<le> 250"
      and "length (pf_img_url f) \<le> 250"
      and "k \<notin> set (map bp_id (blog_posts s))"
  proof -
    let ?p = "\<lparr>bp_id = k, bp_author_id = usr_id u, bp_title = pf_title f,
               bp_subtitle = pf_subtitle f, bp_date = strftime today, bp_body = pf_body f,
               bp_img_url = pf_img_url f\<rparr>"
    from commit_BlogPost_fits [OF that(3) that(4) len that(5) that(2) that(6), of "pf_body f" u]
      that(1)
    have "add_new_post today k (Validated f) s
            = (Redirect Get_all_posts_ep, s\<lparr>blog_posts := blog_posts s @ [?p]\<rparr>)"
      by (simp add: add_new_post_def admin_only_authenticated add_new_post_view_def)
    then show ?thesis
      by (intro exI [of _ ?p]) simp
  qed
  have 2: "blog_posts (snd (add_new_post today k form s)) = blog_posts s
            \<or> (\<exists>p. blog_posts (snd (add_new_post today k form s)) = blog_posts s @ [p]
                   \<and> bp_date p = strftime today)"
    unfolding add_new_post_def
  proof (rule admin_only_state)
    fix cu
    from add_new_post_view_posts [OF len, of k form cu s]
    show "blog_posts (snd (add_new_post_view today k form cu s)) = blog_posts s
          \<or> (\<exists>p. blog_posts (snd (add_new_post_view today k form cu s)) = blog_posts s @ [p]
                 \<and> bp_date p = strftime today)"
      by blast
  next
    show "blog_posts s = blog_posts s
          \<or> (\<exists>p. blog_posts s = blog_posts s @ [p] \<and> bp_date p = strftime today)"
      by simp
  qed
  have 3: "mset (stamps (snd (edit_post post_id edit_form s))) = mset (stamps s)"
    unfolding edit_post_def
    by (rule admin_only_state [where P = "\<lambda>t. mset (stamps t) = mset (stamps s)"])
      (simp_all add: edit_post_view_stamps)
  from 1 2 3 strftime_format [OF assms] show ?thesis by blast
qed

text \<open>
  On 3 March 2024 Alice creates the post P3, dated "March 03, 2024"; her edit of post 2
  leaves post 1 with "March 03, 2024" and post 2 with "June 05, 2024".
\<close>

theorem post_date_witness:
  "valid_date a_day \<and> 1000 \<le> year a_day
   \<and> current_user (blog (Some 1)) = Inr (Authenticated alice)
   \<and> pf_title new_form \<notin> set (map bp_title (blog_posts (blog (Some 1))))
   \<and> length (pf_title new_form) \<le> 250 \<and> length (pf_subtitle new_form) \<le> 250
   \<and> length (pf_img_url new_form) \<le> 250
   \<and> 3 \<notin> set (map bp_id (blog_posts (blog (Some 1))))
   \<and> (\<exists>p. add_new_post a_day 3 (Validated new_form) (blog (Some 1))
             = (Redirect Get_all_posts_ep,
                (blog (Some 1))\<lparr>blog_posts := blog_posts (blog (Some 1)) @ [p]\<rparr>)
          \<and> bp_date p = ''March 03, 2024'' \<and> bp_title p = ''P3'')
   \<and> strftime a_day = ''March 03, 2024''
   \<and> mset (stamps (snd (edit_post 2 (Validated new_form) (blog (Some 1)))))
       = mset [(1, ''March 03, 2024''), (2, ''June 05, 2024'')]"
proof -
  have h1: "valid_date a_day" and h2: "1000 \<le> year a_day"
    by (simp_all add: valid_date_def a_day_def)
  have h3: "current_user (blog (Some 1)) = Inr (Authenticated alice)"
    by (rule current_user_blog)
  have h4: "pf_title new_form \<notin> set (map bp_title (blog_posts (blog (Some 1))))"
    and h5: "length (pf_title new_form) \<le> 250" and h6: "length (pf_subtitle new_form) \<le> 250"
    and h7: "length (pf_img_url new_form) \<le> 250"
    and h8: "3 \<notin> set (map bp_id (blog_posts (blog (Some 1))))"
    by (simp_all add: sample_defs)
  have v: "pf_title new_form = ''P3''"
    "stamps (blog (Some 1)) = [(1, ''March 03, 2024''), (2, ''June 05, 2024'')]"
    by (simp_all add: stamps_def sample_defs)
  note inst = post_date [OF h1 h2, of "blog (Some 1)" alice new_form 3 "Validated new_form" 2
      "Validated new_form"]
  from inst h3 h4 h5 h6 h7 h8
  have a: "\<exists>p. add_new_post a_day 3 (Validated new_form) (blog (Some 1))
             = (Redirect Get_all_posts_ep,
                (blog (Some 1))\<lparr>blog_posts := blog_posts (blog (Some 1)) @ [p]\<rparr>)
          \<and> bp_date p = ''March 03, 2024'' \<and> bp_title p = ''P3''"
    unfolding strftime_a_day v by blast
  from inst
  have b: "mset (stamps (snd (edit_post 2 (Validated new_form) (blog (Some 1)))))
       = mset [(1, ''March 03, 2024''), (2, ''June 05, 2024'')]"
    unfolding v by blast
  from a b h1 h2 h3 h4 h5 h6 h7 h8 strftime_a_day show ?thesis
    by blast
qed

subsection \<open>C6: what an edit changes\<close>

text \<open>
  C6 says that every edit of an existing post by an authenticated caller sets title,
  subtitle, body and image to the submitted values. The columns of the table have
  declared constraints: the title is unique, and title, subtitle and image reference take
  250 characters. Alice's edit of post 2 with the title of post 1 is refused by the store
  at commit, and so is her edit with an image reference of 251 characters: the request
  ends in a server error and post 2 is as it was.
\<close>

theorem edit_refused_counterexample:
  "current_user (blog (Some 1)) = Inr (Authenticated alice)
   \<and> get_post (blog (Some 1)) 2 = Some post2
   \<and> edit_post 2 (Validated clash_form) (blog (Some 1))
       = (Internal_Server_Error IntegrityError, blog (Some 1))
   \<and> map_option bp_title (get_post (snd (edit_post 2 (Validated clash_form) (blog (Some 1)))) 2)
       \<noteq> Some (pf_title clash_form)
   \<and> edit_post 2 (Validated long_form) (blog (Some 1))
       = (Internal_Server_Error DataError, blog (Some 1))
   \<and> map_option bp_img_url (get_post (snd (edit_post 2 (Validated long_form) (blog (Some 1)))) 2)
       \<noteq> Some (pf_img_url long_form)"
proof -
  have 1: "edit_post 2 (Validated clash_form) (blog (Some 1))
       = (Internal_Server_Error IntegrityError, blog (Some 1))"
    by (simp add: gate_defs sample_defs edit_post_def edit_post_view_def commit_edit_def
        assign_def varchar_def get_post_def)
  have ne: "replicate 251 CHR ''x'' \<noteq> ''two.png''"
  proof
    assume "replicate 251 CHR ''x'' = ''two.png''"
    then have "length (replicate 251 CHR ''x'') = length ''two.png''"
      by (rule arg_cong)
    then show False by simp
  qed
  have 2: "edit_post 2 (Validated long_form) (blog (Some 1))
       = (Internal_Server_Error DataError, blog (Some 1))"
    by (simp add: gate_defs sample_defs edit_post_def edit_post_view_def commit_edit_def
        assign_def varchar_def get_post_def ne)
  have 3: "map_option bp_title (get_post (blog (Some 1)) 2) \<noteq> Some (pf_title clash_form)"
    by (simp add: get_post_def sample_defs)
  have 4: "map_option bp_img_url (get_post (blog (Some 1)) 2)
             \<noteq> Some (pf_img_url long_form)"
    using ne by (simp add: get_post_blog long_form_def post2_def eq_commute)
  from 1 2 3 4 current_user_blog(2) get_post_blog(2) [of "Some 1"] show ?thesis
    by simp
qed

text \<open>
  C6 as amended: for an existing post, an authenticated caller, a submitted title that no
  other post has, and a submitted title, subtitle and image reference of at most 250
  characters, the edit answers with the redirect to the post, and the post has the same
  id and date, the submitted title, subtitle, body and image, and the caller as author.
  The other posts, the users, the comments, the session and the flashed messages are
  unchanged. Where the submitted values and the caller are those the post already has,
  nothing is written; otherwise the new version of the row is the last of the table.
\<close>

theorem edit_updates:
  assumes "current_user s = Inr (Authenticated u)"
    and "get_post s post_id = Some p"
    and "pf_title f \<notin> set (map bp_title (filter (\<lambda>x. bp_id x \<noteq> post_id) (blog_posts s)))"
    and "length (pf_title f) \<le> 250" and "length (pf_subtitle f) \<le> 250"
    and "length (pf_img_url f) \<le> 250"
  shows "\<exists>xs ys q. blog_posts s = xs @ p # ys
           \<and> q = \<lparr>bp_id = bp_id p, bp_author_id = usr_id u, bp_title = pf_title f,
                  bp_subtitle = pf_subtitle f, bp_date = bp_date p, bp_body = pf_body f,
                  bp_img_url = pf_img_url f\<rparr>
           \<and> edit_post post_id (Validated f) s =
               (Redirect (Show_post_ep post_id),
                if q = p then s else s\<lparr>blog_posts := xs @ ys @ [q]\<rparr>)"
proof -
  define q where "q = p\<lparr>bp_title := pf_title f, bp_subtitle := pf_subtitle f,
                        bp_img_url := pf_img_url f, bp_author_id := usr_id u,
                        bp_body := pf_body f\<rparr>"
  have pid: "bp_id p = post_id"
    using get_post_Some [OF assms(2)] by simp
  have "find (\<lambda>x. bp_id x = bp_id p) (blog_posts s) = Some p"
    using assms(2) pid by (simp add: get_post_def)
  from remove_post_split [OF this]
  obtain xs ys where split: "blog_posts s = xs @ p # ys"
    "remove_post (bp_id p) (blog_posts s) = xs @ ys"
    by blast
  have c: "commit_edit p q s = Inr (if q = p then s else s\<lparr>blog_posts := xs @ ys @ [q]\<rparr>)"
  proof (cases "q = p")
    case True
    then show ?thesis by (simp add: commit_edit_def)
  next
    case False
    have "commit_edit p q s
            = Inr (s\<lparr>blog_posts := remove_post (bp_id p) (blog_posts s) @ [q]\<rparr>)"
      using assms(3-6) pid by (intro commit_edit_fits [OF False]) (simp_all add: q_def)
    with False split(2) show ?thesis by simp
  qed
  have "edit_post post_id (Validated f) s
          = (Redirect (Show_post_ep post_id),
             if q = p then s else s\<lparr>blog_posts := xs @ ys @ [q]\<rparr>)"
    using assms(1,2) c pid
    by (simp add: edit_post_def admin_only_authenticated edit_post_view_def q_def)
  moreover have "q = \<lparr>bp_id = bp_id p, bp_author_id = usr_id u,
                       bp_title = pf_title f, bp_subtitle = pf_subtitle f,
                       bp_date = bp_date p, bp_body = pf_body f,
                       bp_img_url = pf_img_url f\<rparr>"
    by (simp add: q_def)
  ultimately show ?thesis
    using split(1) by blast
qed

text \<open>Bob, logged in, edits post 2 of Alice and becomes its author.\<close>

theorem edit_updates_witness:
  "current_user (blog (Some 2)) = Inr (Authenticated bob)
   \<and> get_post (blog (Some 2)) 2 = Some post2
   \<and> pf_title new_form
       \<notin> set (map bp_title (filter (\<lambda>x. bp_id x \<noteq> 2) (blog_posts (blog (Some 2)))))
   \<and> length (pf_title new_form) \<le> 250 \<and> length (pf_subtitle new_form) \<le> 250
   \<and> length (pf_img_url new_form) \<le> 250
   \<and> (\<exists>xs ys. blog_posts (blog (Some 2)) = xs @ post2 # ys
         \<and> edit_post 2 (Validated new_form) (blog (Some 2)) =
             (Redirect (Show_post_ep 2),
              (blog (Some 2))\<lparr>blog_posts := xs @ ys @
                 [\<lparr>bp_id = 2, bp_author_id = 2, bp_title = ''P3'', bp_subtitle = ''third'',
                   bp_date = ''June 05, 2024'', bp_body = ''more'',
                   bp_img_url = ''three.png''\<rparr>]\<rparr>))"
proof -
  have h1: "current_user (blog (Some 2)) = Inr (Authenticated bob)"
    by (rule current_user_blog)
  have h2: "get_post (blog (Some 2)) 2 = Some post2"
    by (rule get_post_blog)
  have h3: "pf_title new_form
       \<notin> set (map bp_title (filter (\<lambda>x. bp_id x \<noteq> 2) (blog_posts (blog (Some 2)))))"
    and h4: "length (pf_title new_form) \<le> 250" and h5: "length (pf_subtitle new_form) \<le> 250"
    and h6: "length (pf_img_url new_form) \<le> 250"
    by (simp_all add: sample_defs)
  have v: "bp_id post2 = 2" "usr_id bob = 2" "bp_date post2 = ''June 05, 2024''"
    "pf_title new_form = ''P3''" "pf_subtitle new_form = ''third''"
    "pf_body new_form = ''more''" "pf_img_url new_form = ''three.png''"
    by (simp_all add: sample_defs)
  have ne: "\<lparr>bp_id = 2, bp_author_id = 2, bp_title = ''P3'', bp_subtitle = ''third'',
            bp_date = ''June 05, 2024'', bp_body = ''more'', bp_img_url = ''three.png''\<rparr>
            \<noteq> post2"
    by (simp add: post2_def)
  from edit_updates [OF h1 h2 h3 h4 h5 h6] obtain xs ys
    where "blog_posts (blog (Some 2)) = xs @ post2 # ys"
      "edit_post 2 (Validated new_form) (blog (Some 2)) =
         (Redirect (Show_post_ep 2),
          (blog (Some 2))\<lparr>blog_posts := xs @ ys @
             [\<lparr>bp_id = 2, bp_author_id = 2, bp_title = ''P3'', bp_subtitle = ''third'',
               bp_date = ''June 05, 2024'', bp_body = ''more'',
               bp_img_url = ''three.png''\<rparr>]\<rparr>)"
    unfolding v using ne by auto
  with h1 h2 h3 h4 h5 h6 show ?thesis by blast
qed

subsection \<open>C7: adding a comment\<close>

text \<open>
  C7: when an authenticated caller submits a comment on an existing post, the store gets
  one more comment, whose parent is that post, whose author is the caller and whose text
  is the submitted one; it is among the comments of the post on the page that answers the
  request, and again when the post is fetched afterwards.
\<close>

theorem comment_added:
  assumes "current_user s = Inr (Authenticated u)"
    and "get_post s post_id = Some p"
  shows "\<exists>c s'. show_post post_id (Validated f) s
               = (Render (Post_html p (post_comments s' p)) True, s')
           \<and> comments s' = comments s @ [c]
           \<and> cm_post_id c = bp_id p \<and> bp_id p = post_id
           \<and> cm_author_id c = usr_id u
           \<and> cm_text c = cf_body f
           \<and> c \<in> set (post_comments s' p)
           \<and> (\<exists>cs. show_post post_id Not_validated s' = (Render (Post_html p cs) True, s')
                    \<and> c \<in> set cs)"
proof -
  define c where "c = \<lparr>cm_id = next_id (map cm_id (comments s)), cm_text = cf_body f,
     cm_author_id = usr_id u, cm_post_id = bp_id p\<rparr>"
  define s' where "s' = s\<lparr>comments := comments s @ [c]\<rparr>"
  have cc: "commit_Comment (cf_body f) (Authenticated u) p s = Inr s'"
    by (simp add: commit_Comment_def c_def s'_def)
  have pid: "bp_id p = post_id"
    using get_post_Some [OF assms(2)] by simp
  have cur': "current_user s' = Inr (Authenticated u)"
    using assms(1) current_user_cong [of s' s] by (simp add: s'_def)
  have post': "get_post s' post_id = Some p"
    using assms(2) by (simp add: s'_def get_post_def)
  have mem: "c \<in> set (post_comments s' p)"
    by (simp add: post_comments_def s'_def c_def)
  have 1: "show_post post_id (Validated f) s = (Render (Post_html p (post_comments s' p)) True, s')"
    using assms cc by (simp add: show_post_def get_current_user_def show_post_view_def)
  have 2: "show_post post_id Not_validated s' = (Render (Post_html p (post_comments s' p)) True, s')"
    using cur' post' by (simp add: show_post_def get_current_user_def show_post_view_def)
  show ?thesis
    using 1 2 mem pid by (intro exI [of _ c] exI [of _ s']) (simp add: s'_def c_def)
qed

text \<open>Bob comments on post 1.\<close>

theorem comment_added_witness:
  "current_user (blog (Some 2)) = Inr (Authenticated bob)
   \<and> get_post (blog (Some 2)) 1 = Some post1
   \<and> (\<exists>c s'. show_post 1 (Validated a_comment) (blog (Some 2))
               = (Render (Post_html post1 (post_comments s' post1)) True, s')
           \<and> comments s' = comments (blog (Some 2)) @ [c]
           \<and> cm_post_id c = 1
           \<and> cm_author_id c = 2
           \<and> cm_text c = ''nice''
           \<and> c \<in> set (post_comments s' post1)
           \<and> (\<exists>cs. show_post 1 Not_validated s' = (Render (Post_html post1 cs) True, s')
                    \<and> c \<in> set cs))"
proof -
  have h1: "current_user (blog (Some 2)) = Inr (Authenticated bob)"
    by (simp add: current_user_def load_user_def sample_defs)
  have h2: "get_post (blog (Some 2)) 1 = Some post1"
    by (simp add: get_post_def sample_defs)
  have v: "bp_id post1 = 1" "usr_id bob = 2" "cf_body a_comment = ''nice''"
    by (simp_all add: sample_defs)
  from comment_added [OF h1 h2, of a_comment] h1 h2 v show ?thesis
    by simp
qed

subsection \<open>C8: the list of all users\<close>

text \<open>
  C8 says that the answer of \<^verbatim>\<open>/all-users\<close> has an entry for every user of the
  store. The dictionary is keyed by the name of the user, and names are not unique: with
  Bob (id 2) and Robert (id 3) both named "Bob", the answer has one entry "Bob", with the
  id and the email of Robert, and none for Bob's row.
\<close>

theorem get_all_users_namesakes:
  "bob \<in> set (users (blog None))
   \<and> get_all_users (blog None) =
       (Jsonify [(''Alice'', \<lparr>ue_id = 1, ue_name = ''Alice'', ue_email = ''a@x.com''\<rparr>),
                 (''Bob'', \<lparr>ue_id = 3, ue_name = ''Bob'', ue_email = ''r@x.com''\<rparr>)],
        blog None)"
  by (simp add: get_all_users_def sample_defs)

subsection \<open>C9: registration logs the new user in\<close>

text \<open>
  C9: a registration that the program answers with the redirect to the list of posts has
  appended the new user to the store and has left a session for that user: the current
  user of the next state is the new row. That answer is given whenever no user has the
  email, the email, the hash of the password and the name fit their columns (100
  characters), and the store gives the row a key that the table does not have.
\<close>

theorem register_logs_in:
  "(register generate_password_hash k (Validated f) s = (Redirect Get_all_posts_ep, s')
      \<longrightarrow> (\<exists>new_user. users s' = users s @ [new_user]
             \<and> usr_id new_user = k
             \<and> user_by_email s (rf_email f) = None
             \<and> session_user_id s' = Some (usr_id new_user)
             \<and> current_user s' = Inr (Authenticated new_user)))
   \<and> (user_by_email s (rf_email f) = None \<longrightarrow> current_user s = Inr cu
      \<longrightarrow> length (rf_email f) \<le> 100
      \<longrightarrow> length (generate_password_hash (rf_password f)) \<le> 100
      \<longrightarrow> length (rf_name f) \<le> 100
      \<longrightarrow> k \<notin> set (map usr_id (users s))
      \<longrightarrow> (\<exists>new_user t. register generate_password_hash k (Validated f) s
                             = (Redirect Get_all_posts_ep, t)
             \<and> users t = users s @ [new_user]
             \<and> usr_email new_user = rf_email f
             \<and> usr_name new_user = rf_name f
             \<and> usr_password new_user = generate_password_hash (rf_password f)
             \<and> session_user_id t = Some (usr_id new_user)
             \<and> current_user t = Inr (Authenticated new_user)))"
proof (intro conjI impI)
  assume a: "register generate_password_hash k (Validated f) s = (Redirect Get_all_posts_ep, s')"
  from register_answered [OF a] obtain nu
    where c: "commit_User k (rf_email f) (generate_password_hash (rf_password f)) (rf_name f) s
                = Inr (nu, s\<lparr>users := users s @ [nu]\<rparr>)"
      and none: "user_by_email s (rf_email f) = None"
      and s': "s' = login_user nu (s\<lparr>users := users s @ [nu]\<rparr>)"
      and cur: "current_user s' = Inr (Authenticated nu)"
    by blast
  from commit_User_Inr [OF c] have "usr_id nu = k" by simp
  with none s' cur
  show "\<exists>new_user. users s' = users s @ [new_user] \<and> usr_id new_user = k
          \<and> user_by_email s (rf_email f) = None
          \<and> session_user_id s' = Some (usr_id new_user)
          \<and> current_user s' = Inr (Authenticated new_user)"
    by (intro exI [of _ nu]) (simp add: login_user_def)
next
  assume h: "user_by_email s (rf_email f) = None" "current_user s = Inr cu"
    "length (rf_email f) \<le> 100" "length (generate_password_hash (rf_password f)) \<le> 100"
    "length (rf_name f) \<le> 100" "k \<notin> set (map usr_id (users s))"
  let ?nu = "\<lparr>usr_id = k, usr_email = rf_email f,
              usr_password = generate_password_hash (rf_password f), usr_name = rf_name f\<rparr>"
  let ?t = "login_user ?nu (s\<lparr>users := users s @ [?nu]\<rparr>)"
  have r: "register generate_password_hash k (Validated f) s = (Redirect Get_all_posts_ep, ?t)"
    using h by (rule register_new)
  have "current_user ?t = Inr (Authenticated ?nu)"
    using h(6) by (intro current_user_login_new) simp
  with r
  show "\<exists>new_user t. register generate_password_hash k (Validated f) s
                             = (Redirect Get_all_posts_ep, t)
             \<and> users t = users s @ [new_user]
             \<and> usr_email new_user = rf_email f
             \<and> usr_name new_user = rf_name f
             \<and> usr_password new_user = generate_password_hash (rf_password f)
             \<and> session_user_id t = Some (usr_id new_user)
             \<and> current_user t = Inr (Authenticated new_user)"
    by (intro exI [of _ ?nu] exI [of _ ?t]) (simp add: login_user_def)
qed

text \<open>Alice registers in the empty store and is logged in as user 1.\<close>

theorem register_logs_in_witness:
  "register toy_hash 1 (Validated alice_form) init_state
     = (Redirect Get_all_posts_ep, alice_registered)
   \<and> user_by_email init_state (rf_email alice_form) = None
   \<and> current_user init_state = Inr Anonymous
   \<and> length (rf_email alice_form) \<le> 100
   \<and> length (toy_hash (rf_password alice_form)) \<le> 100
   \<and> length (rf_name alice_form) \<le> 100
   \<and> 1 \<notin> set (map usr_id (users init_state))
   \<and> (\<exists>new_user. users alice_registered = users init_state @ [new_user]
         \<and> usr_id new_user = 1
         \<and> session_user_id alice_registered = Some (usr_id new_user)
         \<and> current_user alice_registered = Inr (Authenticated new_user))
   \<and> (\<exists>new_user t. register toy_hash 1 (Validated alice_form) init_state
                        = (Redirect Get_all_posts_ep, t)
         \<and> users t = users init_state @ [new_user]
         \<and> usr_email new_user = rf_email alice_form
         \<and> current_user t = Inr (Authenticated new_user))"
proof -
  have h0: "register toy_hash 1 (Validated alice_form) init_state
              = (Redirect Get_all_posts_ep, alice_registered)"
    by (simp add: register_def register_view_def get_current_user_def current_user_def
        user_by_email_def commit_User_def varchar_def login_user_def Let_def sample_defs)
  have h1: "user_by_email init_state (rf_email alice_form) = None"
    by (simp add: user_by_email_def init_state_def)
  have h2: "current_user init_state = Inr Anonymous"
    by (simp add: current_user_def init_state_def)
  have h3: "length (rf_email alice_form) \<le> 100"
    "length (toy_hash (rf_password alice_form)) \<le> 100"
    "length (rf_name alice_form) \<le> 100"
    "1 \<notin> set (map usr_id (users init_state))"
    by (simp_all add: sample_defs)
  note inst = register_logs_in [of toy_hash 1 alice_form init_state alice_registered Anonymous]
  from inst h0
  have a: "\<exists>new_user. users alice_registered = users init_state @ [new_user]
         \<and> usr_id new_user = 1
         \<and> session_user_id alice_registered = Some (usr_id new_user)
         \<and> current_user alice_registered = Inr (Authenticated new_user)"
    by blast
  from inst h1 h2 h3
  have b: "\<exists>new_user t. register toy_hash 1 (Validated alice_form) init_state
                        = (Redirect Get_all_posts_ep, t)
         \<and> users t = users init_state @ [new_user]
         \<and> usr_email new_user = rf_email alice_form
         \<and> current_user t = Inr (Authenticated new_user)"
    by blast
  from a b h0 h1 h2 h3 show ?thesis by blast
qed

subsection \<open>C10: comments are not behind a login\<close>

text \<open>
  C10: \<^verbatim>\<open>show_post\<close> has no authentication check: for an existing post and a caller
  without a session, a valid comment form is handed to the creation of the comment with
  the anonymous user as author, and the answer is what that step gives, never 401 or 403.
  The step itself fails: the anonymous user is not a row of the user table, and the
  request ends in a server error with the store unchanged.
\<close>

theorem anonymous_comment_unchecked:
  assumes "session_user_id s = None"
    and "get_post s post_id = Some p"
  shows "show_post post_id (Validated f) s =
           (case commit_Comment (cf_body f) Anonymous p s of
              Inl e \<Rightarrow> (Internal_Server_Error e, s)
            | Inr s' \<Rightarrow> (Render (Post_html p (post_comments s' p)) False, s'))
         \<and> fst (show_post post_id (Validated f) s) \<noteq> Abort 401
         \<and> fst (show_post post_id (Validated f) s) \<noteq> Abort 403
         \<and> show_post post_id (Validated f) s = (Internal_Server_Error AttributeError, s)"
  using assms
  by (simp add: show_post_def get_current_user_def show_post_view_def current_user_def
      commit_Comment_def)

theorem anonymous_comment_unchecked_witness:
  "session_user_id (blog None) = None
   \<and> get_post (blog None) 1 = Some post1
   \<and> fst (show_post 1 (Validated a_comment) (blog None)) \<noteq> Abort 401
   \<and> fst (show_post 1 (Validated a_comment) (blog None)) \<noteq> Abort 403
   \<and> show_post 1 (Validated a_comment) (blog None)
       = (Internal_Server_Error AttributeError, blog None)"
proof -
  have h1: "session_user_id (blog None) = None"
    by (simp add: blog_def)
  have h2: "get_post (blog None) 1 = Some post1"
    by (simp add: get_post_def sample_defs)
  from anonymous_comment_unchecked [OF h1 h2, of a_comment] h1 h2 show ?thesis
    by blast
qed

end
